theory Spec2Isabelle
  imports
    Complex_Main
    "HOL-Library.AList"
    "HOL-Library.Sublist"
    "HOL-Library.Char_ord"
    "HOL-Library.List_Lexorder"
begin

section \<open>Python values held by the Counter Store\<close>

text \<open>
  \<^verbatim>\<open>counts\<close> is a Python dict from str keys to values: ints, a float
  (\<^verbatim>\<open>total_time_seconds\<close>), strings, lists and nested dicts. A dict is an association
  list in insertion order; nested dicts may be keyed by str or by int (a histogram keyed by
  the selected option). Other key types, tuples, non-finite floats and shared (aliased)
  containers are outside the model. A float is represented by the real number it denotes;
  the rounding of float addition is not modelled and no property below reads it.
\<close>

datatype pykey = KStr string | KInt int

datatype pyval =
    PNone
  | PBool bool
  | PInt int
  | PFloat real
  | PStr string
  | PList "pyval list"
  | PDict "(pykey \<times> pyval) list"

datatype py_error =
    KeyError
  | IndexError
  | TypeError
  | AttributeError
  | OverflowError
  | FileNotFoundError
  | OSError
  | JSONDecodeError
  | ExternalError string

type_synonym counts = "(string \<times> pyval) list"

text \<open>Sequencing of evaluations that may raise.\<close>

definition and_then :: "py_error + 'a \<Rightarrow> ('a \<Rightarrow> py_error + 'b) \<Rightarrow> py_error + 'b" where
  "and_then x f = (case x of Inl e \<Rightarrow> Inl e | Inr v \<Rightarrow> f v)"

text \<open>\<^verbatim>\<open>d.update(ps)\<close> and \<^verbatim>\<open>dict(ps)\<close>: later pairs win, a new key goes last.\<close>

definition dict_update :: "('k \<times> 'v) list \<Rightarrow> ('k \<times> 'v) list \<Rightarrow> ('k \<times> 'v) list" where
  "dict_update d ps = fold (\<lambda>(k, v). AList.update k v) ps d"

definition dict_of_pairs :: "('k \<times> 'v) list \<Rightarrow> ('k \<times> 'v) list" where
  "dict_of_pairs ps = dict_update [] ps"

text \<open>\<^verbatim>\<open>x[k]\<close> for a str \<^verbatim>\<open>k\<close>, and \<^verbatim>\<open>x[-1]\<close>.\<close>

fun getitem_str :: "pyval \<Rightarrow> string \<Rightarrow> py_error + pyval" where
  "getitem_str (PDict al) k = (case map_of al (KStr k) of None \<Rightarrow> Inl KeyError | Some v \<Rightarrow> Inr v)"
| "getitem_str _ k = Inl TypeError"

fun getitem_last :: "pyval \<Rightarrow> py_error + pyval" where
  "getitem_last (PList xs) = (if xs = [] then Inl IndexError else Inr (last xs))"
| "getitem_last (PStr s) = (if s = [] then Inl IndexError else Inr (PStr [last s]))"
| "getitem_last (PDict al) = (case map_of al (KInt (- 1)) of None \<Rightarrow> Inl KeyError | Some v \<Rightarrow> Inr v)"
| "getitem_last _ = Inl TypeError"

definition counts_get :: "counts \<Rightarrow> string \<Rightarrow> py_error + pyval" where
  "counts_get c k = (case map_of c k of None \<Rightarrow> Inl KeyError | Some v \<Rightarrow> Inr v)"

text \<open>
  In-place operations on an element: \<^verbatim>\<open>x[k]\<close> is evaluated, the operation \<open>f\<close> is applied to
  it and the result is stored back at the same place (\<^verbatim>\<open>x[k] += 1\<close>,
  \<^verbatim>\<open>x[k].append(v)\<close>). Nothing is stored when the evaluation or the operation raises.
\<close>

definition counts_at :: "string \<Rightarrow> (pyval \<Rightarrow> py_error + pyval) \<Rightarrow> counts \<Rightarrow> py_error + counts" where
  "counts_at k f c =
     (case map_of c k of
        None \<Rightarrow> Inl KeyError
      | Some v \<Rightarrow> (case f v of Inl e \<Rightarrow> Inl e | Inr v' \<Rightarrow> Inr (AList.update k v' c)))"

fun at_str :: "string \<Rightarrow> (pyval \<Rightarrow> py_error + pyval) \<Rightarrow> pyval \<Rightarrow> py_error + pyval" where
  "at_str k f (PDict al) =
     (case map_of al (KStr k) of
        None \<Rightarrow> Inl KeyError
      | Some v \<Rightarrow> (case f v of Inl e \<Rightarrow> Inl e | Inr v' \<Rightarrow> Inr (PDict (AList.update (KStr k) v' al))))"
| "at_str k f _ = Inl TypeError"

fun at_last :: "(pyval \<Rightarrow> py_error + pyval) \<Rightarrow> pyval \<Rightarrow> py_error + pyval" where
  "at_last f (PList xs) =
     (if xs = [] then Inl IndexError
      else (case f (last xs) of Inl e \<Rightarrow> Inl e | Inr v \<Rightarrow> Inr (PList (butlast xs @ [v]))))"
| "at_last f (PDict al) =
     (case map_of al (KInt (- 1)) of
        None \<Rightarrow> Inl KeyError
      | Some v \<Rightarrow> (case f v of Inl e \<Rightarrow> Inl e | Inr v' \<Rightarrow> Inr (PDict (AList.update (KInt (- 1)) v' al))))"
| "at_last f (PStr s) =
     (if s = [] then Inl IndexError
      else (case f (PStr [last s]) of Inl e \<Rightarrow> Inl e | Inr v \<Rightarrow> Inl TypeError))"
| "at_last f _ = Inl TypeError"

text \<open>
  \<^verbatim>\<open>xs.append(x)\<close>, \<^verbatim>\<open>v + n\<close> for an int \<open>n\<close>, \<^verbatim>\<open>v + x\<close> for a float \<open>x\<close>, and truthiness.
  In \<^verbatim>\<open>v + x\<close> an int \<^verbatim>\<open>v\<close> is first converted to a float, and Python raises
  \<^verbatim>\<open>OverflowError\<close> (int too large to convert to float) when it would round beyond the
  largest float, that is from \<open>2 ^ 1024 - 2 ^ 970\<close> on in absolute value; adding two
  floats never raises.
\<close>

definition fits_float :: "int \<Rightarrow> bool" where
  "fits_float i = (\<bar>i\<bar> < 2 ^ 1024 - 2 ^ 970)"

fun py_append :: "pyval \<Rightarrow> pyval \<Rightarrow> py_error + pyval" where
  "py_append x (PList xs) = Inr (PList (xs @ [x]))"
| "py_append x _ = Inl AttributeError"

fun add_int :: "int \<Rightarrow> pyval \<Rightarrow> py_error + pyval" where
  "add_int n (PInt i) = Inr (PInt (i + n))"
| "add_int n (PBool b) = Inr (PInt ((if b then 1 else 0) + n))"
| "add_int n (PFloat x) = Inr (PFloat (x + of_int n))"
| "add_int n _ = Inl TypeError"

fun add_float :: "real \<Rightarrow> pyval \<Rightarrow> py_error + pyval" where
  "add_float x (PInt i) =
     (if fits_float i then Inr (PFloat (of_int i + x)) else Inl OverflowError)"
| "add_float x (PBool b) = Inr (PFloat ((if b then 1 else 0) + x))"
| "add_float x (PFloat y) = Inr (PFloat (y + x))"
| "add_float x _ = Inl TypeError"

fun truthy :: "pyval \<Rightarrow> bool" where
  "truthy PNone = False"
| "truthy (PBool b) = b"
| "truthy (PInt i) = (i \<noteq> 0)"
| "truthy (PFloat x) = (x \<noteq> 0)"
| "truthy (PStr s) = (s \<noteq> [])"
| "truthy (PList xs) = (xs \<noteq> [])"
| "truthy (PDict al) = (al \<noteq> [])"

section \<open>The clock and \<^verbatim>\<open>reset_counts\<close>\<close>

text \<open>
  One reading of the system clock, as the module reads it:
  \<open>today\<close> is \<^verbatim>\<open>str(datetime.date.today())\<close>,
  \<open>yesterday\<close> is \<^verbatim>\<open>str(datetime.date.today() - datetime.timedelta(days=1))\<close>,
  \<open>now\<close> is \<^verbatim>\<open>datetime.datetime.now()\<close> in microseconds, and
  \<open>now_text\<close> is \<^verbatim>\<open>datetime.datetime.now().strftime("%d %b %Y, %H:%M:%S")\<close>.
\<close>

record clock =
  today :: string
  yesterday :: string
  now :: int
  now_text :: string

text \<open>
  \<^verbatim>\<open>reset_counts\<close> (main.py, lines 30 to 38): six assignments to keys of \<^verbatim>\<open>counts\<close>,
  in source order.
\<close>

definition reset_counts :: "clock \<Rightarrow> counts \<Rightarrow> counts" where
  "reset_counts clk c = dict_update c
     [(''total_pageviews'', PInt 0),
      (''total_script_runs'', PInt 0),
      (''total_time_seconds'', PInt 0),
      (''per_day'', PDict [(KStr ''days'', PList [PStr (yesterday clk)]),
                          (KStr ''pageviews'', PList [PInt 0]),
                          (KStr ''script_runs'', PList [PInt 0])]),
      (''widgets'', PDict []),
      (''start_time'', PStr (now_text clk))]"

text \<open>
  The guard of the remote load in \<^verbatim>\<open>start_tracking\<close> (line 123):
  \<^verbatim>\<open>firestore_key_file and not counts["loaded_from_firestore"]\<close>. The subscript is
  evaluated only when the key file is truthy.
\<close>

definition firestore_due :: "string option \<Rightarrow> counts \<Rightarrow> py_error + bool" where
  "firestore_due firestore_key_file c =
     (case firestore_key_file of
        None \<Rightarrow> Inr False
      | Some kf \<Rightarrow>
          if kf = [] then Inr False
          else and_then (counts_get c ''loaded_from_firestore'') (\<lambda>v. Inr (\<not> truthy v)))"

section \<open>Statements, state and outcomes\<close>

text \<open>
  Values of \<^verbatim>\<open>st.session_state\<close>: a plain Python value, or a \<^verbatim>\<open>datetime\<close>
  (microseconds).
\<close>

datatype sval = SVal pyval | SDatetime int

text \<open>
  The widget entry points \<^verbatim>\<open>st.<widget>\<close> and \<^verbatim>\<open>st.sidebar.<widget>\<close>, and the function
  objects they hold: a function of the host, or what one of the wrappers of
  \<^verbatim>\<open>wrappers.py\<close> returns for a function.
\<close>

datatype widget =
    button | checkbox | radio | selectbox | multiselect | slider | select_slider
  | text_input | number_input | text_area | date_input | time_input | file_uploader
  | color_picker | chat_input

datatype entry = St widget | Sidebar widget

datatype wrapper =
    wrap_button | wrap_checkbox | wrap_select | wrap_multiselect | wrap_value
  | wrap_file_uploader | wrap_chat_input

datatype fn = Host entry | Wrapped wrapper fn

text \<open>
  A snapshot file: a JSON document (represented by the value \<^verbatim>\<open>json.loads\<close> returns for
  it), text that is not JSON, or a path that exists and cannot be read as text. What is
  rendered on the page: the text of a \<^verbatim>\<open>st.write\<close>, or the dashboard.
\<close>

datatype file_content = Json_doc pyval | Not_json | Unreadable

datatype element = Markdown string | Dashboard

text \<open>
  Everything the module reads and writes: the process-wide \<^verbatim>\<open>counts\<close>, the session's
  \<^verbatim>\<open>st.session_state\<close>, the current widget entry points, the module globals
  \<^verbatim>\<open>_orig_*\<close>, the file system, \<^verbatim>\<open>st.query_params\<close> (the str that
  \<^verbatim>\<open>st.query_params[k]\<close> returns) and the rendered page.
\<close>

record state =
  counts :: counts
  session_state :: "string \<rightharpoonup> sval"
  st_attr :: "entry \<Rightarrow> fn"
  orig :: "entry \<Rightarrow> fn"
  files :: "string \<rightharpoonup> file_content"
  query_params :: "string \<rightharpoonup> string"
  page :: "element list"

text \<open>
  A call returns, or raises; either way it leaves a state behind (Python does not roll
  back). A block of statements runs them in order and stops at the first that raises.
\<close>

datatype 's outcome = Returned 's | Raised py_error 's

fun final :: "'s outcome \<Rightarrow> 's" where
  "final (Returned s) = s"
| "final (Raised e s) = s"

primrec run :: "('s \<Rightarrow> 's outcome) list \<Rightarrow> 's \<Rightarrow> 's outcome" where
  "run [] s = Returned s"
| "run (f # fs) s = (case f s of Returned s' \<Rightarrow> run fs s' | Raised e s' \<Rightarrow> Raised e s')"

definition py_if :: "('s \<Rightarrow> py_error + bool) \<Rightarrow> ('s \<Rightarrow> 's outcome) list \<Rightarrow> 's \<Rightarrow> 's outcome" where
  "py_if cond body s =
     (case cond s of Inl e \<Rightarrow> Raised e s | Inr b \<Rightarrow> if b then run body s else Returned s)"

definition on_counts :: "(counts \<Rightarrow> py_error + counts) \<Rightarrow> state \<Rightarrow> state outcome" where
  "on_counts f s = (case f (counts s) of Inl e \<Rightarrow> Raised e s | Inr c \<Rightarrow> Returned (s\<lparr>counts := c\<rparr>))"

definition set_session :: "string \<Rightarrow> sval \<Rightarrow> state \<Rightarrow> state outcome" where
  "set_session k v s = Returned (s\<lparr>session_state := (session_state s)(k \<mapsto> v)\<rparr>)"

text \<open>
  The external collaborators, taken as parameters: \<^verbatim>\<open>firestore.load\<close> and
  \<^verbatim>\<open>firestore.save\<close> (the \<^verbatim>\<open>firestore_key_file\<close> argument as it was passed, collection name,
  \<^verbatim>\<open>counts\<close>) and
  \<^verbatim>\<open>display.show_results\<close> (password, \<^verbatim>\<open>counts\<close>; it is handed \<^verbatim>\<open>reset_counts\<close> and may
  call it). Each may change \<^verbatim>\<open>counts\<close> and may raise.
\<close>

record host =
  firestore_load :: "string option \<Rightarrow> string \<Rightarrow> counts \<Rightarrow> counts outcome"
  firestore_save :: "string option \<Rightarrow> string \<Rightarrow> counts \<Rightarrow> counts outcome"
  show_results :: "string option \<Rightarrow> counts \<Rightarrow> counts outcome"

definition call_host :: "(counts \<Rightarrow> counts outcome) \<Rightarrow> state \<Rightarrow> state outcome" where
  "call_host f s =
     (case f (counts s) of
        Returned c \<Rightarrow> Returned (s\<lparr>counts := c\<rparr>)
      | Raised e c \<Rightarrow> Raised e (s\<lparr>counts := c\<rparr>))"

section \<open>\<^verbatim>\<open>_track_user\<close>\<close>

definition per_day_at :: "string \<Rightarrow> (pyval \<Rightarrow> py_error + pyval) \<Rightarrow> counts \<Rightarrow> py_error + counts" where
  "per_day_at field f = counts_at ''per_day'' (at_str field f)"

text \<open>Line 91: \<^verbatim>\<open>counts["per_day"]["days"][-1] != today\<close>.\<close>

definition day_changed :: "string \<Rightarrow> state \<Rightarrow> py_error + bool" where
  "day_changed t s =
     and_then (counts_get (counts s) ''per_day'') (\<lambda>pd.
     and_then (getitem_str pd ''days'') (\<lambda>ds.
     and_then (getitem_last ds) (\<lambda>d.
     Inr (d \<noteq> PStr t))))"

text \<open>Lines 91 to 95: the new-day block.\<close>

definition new_day :: "clock \<Rightarrow> state \<Rightarrow> state outcome" where
  "new_day clk = py_if (day_changed (today clk))
     [on_counts (per_day_at ''days'' (py_append (PStr (today clk)))),
      on_counts (per_day_at ''pageviews'' (py_append (PInt 0))),
      on_counts (per_day_at ''script_runs'' (py_append (PInt 0)))]"

text \<open>
  Line 99: \<^verbatim>\<open>counts["total_time_seconds"] += (now - st.session_state.last_time).total_seconds()\<close>.
  The subscript is read first, then the right-hand side is evaluated.
\<close>

definition add_elapsed :: "int \<Rightarrow> state \<Rightarrow> state outcome" where
  "add_elapsed t s =
     (case map_of (counts s) ''total_time_seconds'' of
        None \<Rightarrow> Raised KeyError s
      | Some v \<Rightarrow>
          (case session_state s ''last_time'' of
             None \<Rightarrow> Raised AttributeError s
           | Some (SVal x) \<Rightarrow> Raised TypeError s
           | Some (SDatetime t0) \<Rightarrow>
               (case add_float (real_of_int (t - t0) / 1000000) v of
                  Inl e \<Rightarrow> Raised e s
                | Inr v' \<Rightarrow> Returned (s\<lparr>counts := AList.update ''total_time_seconds'' v' (counts s)\<rparr>))))"

text \<open>Line 101: \<^verbatim>\<open>not st.session_state.user_tracked\<close>.\<close>

definition not_user_tracked :: "state \<Rightarrow> py_error + bool" where
  "not_user_tracked s =
     (case session_state s ''user_tracked'' of
        None \<Rightarrow> Inl AttributeError
      | Some (SVal v) \<Rightarrow> Inr (\<not> truthy v)
      | Some (SDatetime t) \<Rightarrow> Inr False)"

text \<open>Lines 96 to 104: the counters of this run.\<close>

definition count_run :: "clock \<Rightarrow> (state \<Rightarrow> state outcome) list" where
  "count_run clk =
     [on_counts (counts_at ''total_script_runs'' (add_int 1)),
      on_counts (per_day_at ''script_runs'' (at_last (add_int 1))),
      add_elapsed (now clk),
      set_session ''last_time'' (SDatetime (now clk)),
      py_if not_user_tracked
        [set_session ''user_tracked'' (SVal (PBool True)),
         on_counts (counts_at ''total_pageviews'' (add_int 1)),
         on_counts (per_day_at ''pageviews'' (at_last (add_int 1)))]]"

text \<open>\<^verbatim>\<open>_track_user\<close> (lines 88 to 104): the new-day block, then the counters.\<close>

definition track_user :: "clock \<Rightarrow> state \<Rightarrow> state outcome" where
  "track_user clk = run (new_day clk # count_run clk)"

section \<open>\<^verbatim>\<open>start_tracking\<close>\<close>

text \<open>Lines 123 to 125: the remote load, at most once per process.\<close>

definition firestore_step :: "host \<Rightarrow> string option \<Rightarrow> string \<Rightarrow> state \<Rightarrow> state outcome" where
  "firestore_step h firestore_key_file firestore_collection_name =
     py_if (\<lambda>s. firestore_due firestore_key_file (counts s))
       [call_host (firestore_load h firestore_key_file firestore_collection_name),
        on_counts (\<lambda>c. Inr (AList.update ''loaded_from_firestore'' (PBool True) c))]"

text \<open>
  Line 136: \<^verbatim>\<open>counts.update({k: json_counts[k] for k in json_counts if k in counts})\<close>.
  \<open>py_iter\<close> is \<^verbatim>\<open>for k in json_counts\<close>; \<open>present_items\<close> is the comprehension: for each
  \<open>k\<close> in turn, \<^verbatim>\<open>k in counts\<close> (a list or dict is unhashable, any other value that is not a
  str equals no key of \<^verbatim>\<open>counts\<close>), then \<^verbatim>\<open>json_counts[k]\<close>.
\<close>

fun key_val :: "pykey \<Rightarrow> pyval" where
  "key_val (KStr s) = PStr s"
| "key_val (KInt i) = PInt i"

fun py_iter :: "pyval \<Rightarrow> py_error + pyval list" where
  "py_iter (PDict al) = Inr (map (\<lambda>p. key_val (fst p)) al)"
| "py_iter (PList xs) = Inr xs"
| "py_iter (PStr s) = Inr (map (\<lambda>ch. PStr [ch]) s)"
| "py_iter _ = Inl TypeError"

fun present_items :: "counts \<Rightarrow> pyval \<Rightarrow> pyval list \<Rightarrow> py_error + (string \<times> pyval) list" where
  "present_items c j [] = Inr []"
| "present_items c j (PStr k # ks) =
     (if k \<in> fst ` set c
      then and_then (getitem_str j k) (\<lambda>v.
           and_then (present_items c j ks) (\<lambda>d.
           Inr ((k, v) # d)))
      else present_items c j ks)"
| "present_items c j (PList xs # ks) = Inl TypeError"
| "present_items c j (PDict al # ks) = Inl TypeError"
| "present_items c j (k # ks) = present_items c j ks"

definition merge_snapshot :: "counts \<Rightarrow> pyval \<Rightarrow> py_error + counts" where
  "merge_snapshot c j =
     and_then (py_iter j) (\<lambda>ks.
     and_then (present_items c j ks) (\<lambda>d.
     Inr (dict_update c (dict_of_pairs d))))"

text \<open>
  Lines 131 to 136, the body of the \<^verbatim>\<open>try\<close>: \<^verbatim>\<open>read_text\<close>, \<^verbatim>\<open>json.loads\<close>, the merge.
  Lines 127 to 150, the load step: both handlers only log, so \<^verbatim>\<open>counts\<close> is assigned on
  success alone.
\<close>

definition load_counts :: "string \<Rightarrow> state \<Rightarrow> py_error + counts" where
  "load_counts path s =
     (case files s path of
        None \<Rightarrow> Inl FileNotFoundError
      | Some Unreadable \<Rightarrow> Inl OSError
      | Some Not_json \<Rightarrow> Inl JSONDecodeError
      | Some (Json_doc j) \<Rightarrow> merge_snapshot (counts s) j)"

definition load_step :: "string option \<Rightarrow> state \<Rightarrow> state outcome" where
  "load_step load_from_json s =
     (case load_from_json of
        None \<Rightarrow> Returned s
      | Some path \<Rightarrow>
          (case load_counts path s of
             Inr c \<Rightarrow> Returned (s\<lparr>counts := c\<rparr>)
           | Inl FileNotFoundError \<Rightarrow> Returned s
           | Inl e \<Rightarrow> Returned s))"

text \<open>Lines 152 to 158: the session keys.\<close>

definition init_session :: "clock \<Rightarrow> state \<Rightarrow> state outcome" where
  "init_session clk0 = run
     [py_if (\<lambda>s. Inr (session_state s ''user_tracked'' = None))
        [set_session ''user_tracked'' (SVal (PBool False))],
      py_if (\<lambda>s. Inr (session_state s ''state_dic'' = None))
        [set_session ''state_dict'' (SVal (PDict []))],
      py_if (\<lambda>s. Inr (session_state s ''last_time'' = None))
        [set_session ''last_time'' (SDatetime (now clk0))]]"

text \<open>
  Lines 152 to 159: what every run of the script does to the session and the counters once the
  loads are over, the initialisation of the session keys and then \<^verbatim>\<open>_track_user()\<close>.
  \<open>clk0\<close> is the clock read at line 158 and \<open>clk\<close> the one read by \<^verbatim>\<open>_track_user\<close>.
\<close>

definition init_and_track :: "clock \<Rightarrow> clock \<Rightarrow> state \<Rightarrow> state outcome" where
  "init_and_track clk0 clk = run [init_session clk0, track_user clk]"

text \<open>
  Lines 162 to 197: each entry point is assigned the wrapper applied to the \<^verbatim>\<open>_orig_\<close>
  global of the same entry point.
\<close>

definition patched :: "(entry \<times> wrapper) list" where
  "patched =
     [(St button, wrap_button), (St checkbox, wrap_checkbox), (St radio, wrap_select),
      (St selectbox, wrap_select), (St multiselect, wrap_multiselect), (St slider, wrap_value),
      (St select_slider, wrap_select), (St text_input, wrap_value),
      (St number_input, wrap_value), (St text_area, wrap_value), (St date_input, wrap_value),
      (St time_input, wrap_value), (St file_uploader, wrap_file_uploader),
      (St color_picker, wrap_value), (St chat_input, wrap_chat_input),
      (Sidebar button, wrap_button), (Sidebar checkbox, wrap_checkbox),
      (Sidebar radio, wrap_select), (Sidebar selectbox, wrap_select),
      (Sidebar multiselect, wrap_multiselect), (Sidebar slider, wrap_value),
      (Sidebar select_slider, wrap_select), (Sidebar text_input, wrap_value),
      (Sidebar number_input, wrap_value), (Sidebar text_area, wrap_value),
      (Sidebar date_input, wrap_value), (Sidebar time_input, wrap_value),
      (Sidebar file_uploader, wrap_file_uploader), (Sidebar color_picker, wrap_value)]"

definition patch :: "state \<Rightarrow> state outcome" where
  "patch s = Returned (s\<lparr>st_attr := fold (\<lambda>(e, w) a. a(e := Wrapped w (orig s e))) patched (st_attr s)\<rparr>)"

text \<open>
  \<^verbatim>\<open>start_tracking\<close> (lines 108 to 223). \<open>clk0\<close> is the clock read at line 158, \<open>clk\<close> the
  clock read by \<^verbatim>\<open>_track_user\<close>. Logging and printing (\<^verbatim>\<open>verbose\<close>) touch none of the
  state and are left out.
\<close>

definition start_tracking ::
  "host \<Rightarrow> clock \<Rightarrow> clock \<Rightarrow> string option \<Rightarrow> string \<Rightarrow> string option \<Rightarrow> state \<Rightarrow> state outcome" where
  "start_tracking h clk0 clk firestore_key_file firestore_collection_name load_from_json = run
     [firestore_step h firestore_key_file firestore_collection_name,
      load_step load_from_json,
      init_session clk0,
      track_user clk,
      patch]"

section \<open>\<^verbatim>\<open>stop_tracking\<close> and \<^verbatim>\<open>track\<close>\<close>

text \<open>Lines 248 to 283: each entry point is assigned the \<^verbatim>\<open>_orig_\<close> global of the same entry point.\<close>

definition restored :: "entry list" where
  "restored =
     [St button, St checkbox, St radio, St selectbox, St multiselect, St slider,
      St select_slider, St text_input, St number_input, St text_area, St date_input,
      St time_input, St file_uploader, St color_picker, St chat_input,
      Sidebar button, Sidebar checkbox, Sidebar radio, Sidebar selectbox,
      Sidebar multiselect, Sidebar slider, Sidebar select_slider, Sidebar text_input,
      Sidebar number_input, Sidebar text_area, Sidebar date_input, Sidebar time_input,
      Sidebar file_uploader, Sidebar color_picker]"

definition unpatch :: "state \<Rightarrow> state outcome" where
  "unpatch s = Returned (s\<lparr>st_attr := fold (\<lambda>e a. a(e := orig s e)) restored (st_attr s)\<rparr>)"

text \<open>Lines 294 to 299: the remote save, when the key file is truthy.\<close>

definition firestore_save_step :: "host \<Rightarrow> string option \<Rightarrow> string \<Rightarrow> state \<Rightarrow> state outcome" where
  "firestore_save_step h firestore_key_file firestore_collection_name =
     py_if (\<lambda>s. Inr (case firestore_key_file of None \<Rightarrow> False | Some kf \<Rightarrow> kf \<noteq> []))
       [call_host (firestore_save h firestore_key_file firestore_collection_name)]"

text \<open>
  \<^verbatim>\<open>json.dump\<close>: the document written for a value, as \<^verbatim>\<open>json.loads\<close> reads it back. JSON
  object keys are strings: \<^verbatim>\<open>json.dump\<close> writes an int key as its decimal text, and of
  two equal keys of a JSON object \<^verbatim>\<open>json.loads\<close> keeps the last value.
\<close>

function digits :: "nat \<Rightarrow> string" where
  "digits n =
     (if n < 10 then [''0123456789'' ! n]
      else digits (n div 10) @ [''0123456789'' ! (n mod 10)])"
  by pat_completeness auto
termination
  by (relation "measure id") auto

fun key_text :: "pykey \<Rightarrow> string" where
  "key_text (KStr s) = s"
| "key_text (KInt i) = (if i < 0 then CHR ''-'' # digits (nat (- i)) else digits (nat i))"

fun json_dump :: "pyval \<Rightarrow> pyval" where
  "json_dump (PDict al) = PDict (dict_of_pairs (map (\<lambda>(k, v). (KStr (key_text k), json_dump v)) al))"
| "json_dump (PList xs) = PList (map json_dump xs)"
| "json_dump v = v"

text \<open>
  Lines 305 to 314: the local snapshot, written when \<^verbatim>\<open>save_to_json\<close> is not \<^verbatim>\<open>None\<close>.
  Failures of \<^verbatim>\<open>mkdir\<close> and \<^verbatim>\<open>open\<close> are not modelled.
\<close>

definition save_step :: "string option \<Rightarrow> state \<Rightarrow> state outcome" where
  "save_step save_to_json s =
     (case save_to_json of
        None \<Rightarrow> Returned s
      | Some path \<Rightarrow>
          Returned (s\<lparr>files := (files s)(path \<mapsto>
            Json_doc (json_dump (PDict (map (\<lambda>(k, v). (KStr k, v)) (counts s)))))\<rparr>))"

text \<open>
  Lines 320 to 323:
  \<^verbatim>\<open>"analytics" in query_params and "on" in query_params["analytics"]\<close>, where
  \<^verbatim>\<open>query_params["analytics"]\<close> is a str, so that the second \<^verbatim>\<open>in\<close> is the substring test.
\<close>

definition analytics_on :: "(string \<rightharpoonup> string) \<Rightarrow> bool" where
  "analytics_on qp = (case qp ''analytics'' of None \<Rightarrow> False | Some v \<Rightarrow> sublist ''on'' v)"

definition st_write :: "string \<Rightarrow> state \<Rightarrow> state outcome" where
  "st_write txt s = Returned (s\<lparr>page := page s @ [Markdown txt]\<rparr>)"

definition show_dashboard :: "host \<Rightarrow> string option \<Rightarrow> state \<Rightarrow> state outcome" where
  "show_dashboard h unsafe_password s =
     call_host (show_results h unsafe_password) (s\<lparr>page := page s @ [Dashboard]\<rparr>)"

definition dashboard_step :: "host \<Rightarrow> string option \<Rightarrow> state \<Rightarrow> state outcome" where
  "dashboard_step h unsafe_password =
     py_if (\<lambda>s. Inr (analytics_on (query_params s)))
       [st_write ''---'', show_dashboard h unsafe_password]"

text \<open>\<^verbatim>\<open>stop_tracking\<close> (lines 226 to 323).\<close>

definition stop_tracking ::
  "host \<Rightarrow> string option \<Rightarrow> string option \<Rightarrow> string option \<Rightarrow> string \<Rightarrow> state \<Rightarrow> state outcome" where
  "stop_tracking h unsafe_password save_to_json firestore_key_file firestore_collection_name = run
     [unpatch,
      firestore_save_step h firestore_key_file firestore_collection_name,
      save_step save_to_json,
      dashboard_step h unsafe_password]"

text \<open>
  \<^verbatim>\<open>track\<close> (lines 326 to 359), a generator-based context manager with no
  \<^verbatim>\<open>try\<close>/\<^verbatim>\<open>finally\<close>: \<^verbatim>\<open>start_tracking\<close>, the body of the \<^verbatim>\<open>with\<close> statement, then
  \<^verbatim>\<open>stop_tracking\<close>; an exception of the body leaves the generator at the \<^verbatim>\<open>yield\<close>.
\<close>

definition track ::
  "host \<Rightarrow> clock \<Rightarrow> clock \<Rightarrow> string option \<Rightarrow> string option \<Rightarrow> string option \<Rightarrow> string \<Rightarrow>
   string option \<Rightarrow> (state \<Rightarrow> state outcome) \<Rightarrow> state \<Rightarrow> state outcome" where
  "track h clk0 clk unsafe_password save_to_json firestore_key_file firestore_collection_name
     load_from_json body = run
     [start_tracking h clk0 clk firestore_key_file firestore_collection_name load_from_json,
      body,
      stop_tracking h unsafe_password save_to_json firestore_key_file firestore_collection_name]"

text \<open>
  Module load (lines 41 to 80): \<^verbatim>\<open>reset_counts()\<close>, then each \<^verbatim>\<open>_orig_\<close> global is
  assigned the current value of its entry point.
\<close>

definition saved :: "entry list" where
  "saved =
     [St button, St checkbox, St radio, St selectbox, St multiselect, St slider,
      St select_slider, St text_input, St number_input, St text_area, St date_input,
      St time_input, St file_uploader, St color_picker, St chat_input,
      Sidebar button, Sidebar checkbox, Sidebar radio, Sidebar selectbox,
      Sidebar multiselect, Sidebar slider, Sidebar select_slider, Sidebar text_input,
      Sidebar number_input, Sidebar text_area, Sidebar date_input, Sidebar time_input,
      Sidebar file_uploader, Sidebar color_picker]"

definition module_load :: "clock \<Rightarrow> state \<Rightarrow> state" where
  "module_load clk s =
     s\<lparr>counts := reset_counts clk (counts s),
       orig := fold (\<lambda>e g. g(e := st_attr s e)) saved (orig s)\<rparr>"

section \<open>Reading the store\<close>

text \<open>
  The three sequences \<^verbatim>\<open>per_day.days\<close>, \<^verbatim>\<open>per_day.pageviews\<close> and
  \<^verbatim>\<open>per_day.script_runs\<close>, when \<^verbatim>\<open>counts["per_day"]\<close> is a dict that holds three lists.
\<close>

fun three_lists :: "pyval \<Rightarrow> (pyval list \<times> pyval list \<times> pyval list) option" where
  "three_lists (PDict pd) =
     (case (map_of pd (KStr ''days''), map_of pd (KStr ''pageviews''),
            map_of pd (KStr ''script_runs'')) of
        (Some (PList ds), Some (PList pv), Some (PList sr)) \<Rightarrow> Some (ds, pv, sr)
      | _ \<Rightarrow> None)"
| "three_lists _ = None"

definition per_day_lists :: "counts \<Rightarrow> (pyval list \<times> pyval list \<times> pyval list) option" where
  "per_day_lists c = (case map_of c ''per_day'' of Some v \<Rightarrow> three_lists v | None \<Rightarrow> None)"

fun is_int :: "pyval \<Rightarrow> bool" where
  "is_int (PInt i) = True"
| "is_int _ = False"

text \<open>A value to which line 99 can add a float: a float, a bool, or an int that fits a float.\<close>

fun float_addable :: "pyval \<Rightarrow> bool" where
  "float_addable (PInt i) = fits_float i"
| "float_addable (PFloat x) = True"
| "float_addable (PBool b) = True"
| "float_addable _ = False"

text \<open>
  A store shaped as \<^verbatim>\<open>reset_counts\<close> makes it and \<^verbatim>\<open>_track_user\<close> keeps it: non-empty
  \<^verbatim>\<open>per_day\<close> sequences with integer counters, integer totals, and a
  \<^verbatim>\<open>total_time_seconds\<close> to which a float can be added.
\<close>

definition well_formed_store :: "counts \<Rightarrow> bool" where
  "well_formed_store c =
     ((case per_day_lists c of
         None \<Rightarrow> False
       | Some (ds, pv, sr) \<Rightarrow>
           ds \<noteq> [] \<and> pv \<noteq> [] \<and> sr \<noteq> [] \<and> list_all is_int pv \<and> list_all is_int sr)
      \<and> (case map_of c ''total_pageviews'' of Some v \<Rightarrow> is_int v | None \<Rightarrow> False)
      \<and> (case map_of c ''total_script_runs'' of Some v \<Rightarrow> is_int v | None \<Rightarrow> False)
      \<and> (case map_of c ''total_time_seconds'' of Some v \<Rightarrow> float_addable v | None \<Rightarrow> False))"

text \<open>
  A session in which the keys \<^verbatim>\<open>user_tracked\<close> and \<^verbatim>\<open>last_time\<close> are absent, as in a new
  session, or hold what \<^verbatim>\<open>start_tracking\<close> and \<^verbatim>\<open>_track_user\<close> store there: a boolean
  and a datetime.
\<close>

definition session_keys_ok :: "(string \<rightharpoonup> sval) \<Rightarrow> bool" where
  "session_keys_ok m =
     ((case m ''user_tracked'' of None \<Rightarrow> True | Some (SVal (PBool b)) \<Rightarrow> True | _ \<Rightarrow> False)
      \<and> (case m ''last_time'' of None \<Rightarrow> True | Some (SDatetime t) \<Rightarrow> True | _ \<Rightarrow> False))"

text \<open>A well-formed store, and a session in which both keys are present.\<close>

definition well_formed :: "state \<Rightarrow> bool" where
  "well_formed s =
     (well_formed_store (counts s)
      \<and> (case session_state s ''last_time'' of Some (SDatetime t) \<Rightarrow> True | _ \<Rightarrow> False)
      \<and> (case session_state s ''user_tracked'' of Some (SVal (PBool b)) \<Rightarrow> True | _ \<Rightarrow> False))"

text \<open>Plain JSON data: every dict, at every depth, has distinct keys that are all str.\<close>

fun is_str_key :: "pykey \<Rightarrow> bool" where
  "is_str_key (KStr s) = True"
| "is_str_key (KInt i) = False"

fun json_faithful :: "pyval \<Rightarrow> bool" where
  "json_faithful (PDict al) =
     (distinct (map fst al) \<and> (\<forall>p \<in> set al. is_str_key (fst p) \<and> json_faithful (snd p)))"
| "json_faithful (PList xs) = (\<forall>x \<in> set xs. json_faithful x)"
| "json_faithful v = True"

text \<open>
  The invariant of \<^verbatim>\<open>per_day\<close>: three sequences of equal length, \<^verbatim>\<open>days\<close> a strictly
  increasing sequence of strings. Strings are compared as Python compares them, character
  by character; on \<^verbatim>\<open>YYYY-MM-DD\<close> date strings this is the order of the dates.
\<close>

fun is_str :: "pyval \<Rightarrow> bool" where
  "is_str (PStr s) = True"
| "is_str _ = False"

fun py_less :: "pyval \<Rightarrow> pyval \<Rightarrow> bool" where
  "py_less (PStr a) (PStr b) = (a < b)"
| "py_less _ _ = False"

definition strictly_increasing :: "pyval list \<Rightarrow> bool" where
  "strictly_increasing ds = (list_all is_str ds \<and> sorted_wrt py_less ds)"

fun per_day_ok :: "pyval \<Rightarrow> bool" where
  "per_day_ok v =
     (case three_lists v of
        None \<Rightarrow> False
      | Some (ds, pv, sr) \<Rightarrow>
          length ds = length pv \<and> length pv = length sr \<and> strictly_increasing ds)"

definition per_day_inv :: "counts \<Rightarrow> bool" where
  "per_day_inv c = (case map_of c ''per_day'' of Some v \<Rightarrow> per_day_ok v | None \<Rightarrow> False)"

text \<open>Today is not earlier than the last recorded day.\<close>

definition not_before_last :: "string \<Rightarrow> counts \<Rightarrow> bool" where
  "not_before_last t c =
     (case per_day_lists c of
        None \<Rightarrow> True
      | Some (ds, pv, sr) \<Rightarrow> ds = [] \<or> \<not> py_less (PStr t) (last ds))"

text \<open>The snapshot at a path has no \<^verbatim>\<open>per_day\<close> key, or one that satisfies the invariant.\<close>

definition snapshot_per_day_ok :: "file_content option \<Rightarrow> bool" where
  "snapshot_per_day_ok f =
     (case f of
        Some (Json_doc (PDict al)) \<Rightarrow>
          (case map_of al (KStr ''per_day'') of None \<Rightarrow> True | Some v \<Rightarrow> per_day_ok v)
      | _ \<Rightarrow> True)"

fun returns :: "'s outcome \<Rightarrow> bool" where
  "returns (Returned s) = True"
| "returns (Raised e s) = False"

fun raised :: "'s outcome \<Rightarrow> py_error option" where
  "raised (Returned s) = None"
| "raised (Raised e s) = Some e"

section \<open>What a call leaves untouched\<close>

text \<open>
  Between two states: the session keys outside \<open>K\<close>, the entry points, the \<^verbatim>\<open>_orig_\<close>
  globals and the query parameters are the same.
\<close>

definition frame :: "string set \<Rightarrow> state \<Rightarrow> state \<Rightarrow> bool" where
  "frame K a b =
     ((\<forall>k. k \<notin> K \<longrightarrow> session_state b k = session_state a k)
      \<and> st_attr b = st_attr a \<and> orig b = orig a \<and> query_params b = query_params a)"

section \<open>A fresh process\<close>

text \<open>
  Modelled from the spec: \<^verbatim>\<open>tracker.counts\<close>, which \<^verbatim>\<open>tracker.py\<close> defines and
  main.py imports; the spec gives the store a boolean \<^verbatim>\<open>loaded_from_firestore\<close> created
  once at process start, and main.py (line 27) quotes \<^verbatim>\<open>{"loaded_from_firestore": False}\<close>.
  \<open>fresh_process\<close> is a process before the module is loaded, with a new session, the
  host's own functions at the entry points, no snapshot file and no query parameter.
  \<open>noon\<close> is a reading of the clock and \<open>quiet_host\<close> a host whose collaborators return
  without touching \<^verbatim>\<open>counts\<close>; they serve as concrete inputs.
\<close>

definition fresh_process :: state where
  "fresh_process =
     \<lparr>counts = [(''loaded_from_firestore'', PBool False)],
      session_state = Map.empty,
      st_attr = Host,
      orig = Host,
      files = Map.empty,
      query_params = Map.empty,
      page = []\<rparr>"

definition noon :: clock where
  "noon = \<lparr>today = ''2024-01-02'', yesterday = ''2024-01-01'',
            now = 1704196800000000, now_text = ''02 Jan 2024, 12:00:00''\<rparr>"

definition quiet_host :: host where
  "quiet_host =
     \<lparr>firestore_load = (\<lambda>kf coll c. Returned c),
      firestore_save = (\<lambda>kf coll c. Returned c),
      show_results = (\<lambda>pw c. Returned c)\<rparr>"

definition evening :: clock where
  "evening = \<lparr>today = ''2024-01-02'', yesterday = ''2024-01-01'',
            now = 1704225600000000, now_text = ''02 Jan 2024, 20:00:00''\<rparr>"

definition next_morning :: clock where
  "next_morning = \<lparr>today = ''2024-01-03'', yesterday = ''2024-01-02'',
            now = 1704268800000000, now_text = ''03 Jan 2024, 08:00:00''\<rparr>"

text \<open>A store with two recorded days, and a session that has been counted.\<close>

definition two_days :: state where
  "two_days = fresh_process
     \<lparr>counts :=
        [(''loaded_from_firestore'', PBool False),
         (''total_pageviews'', PInt 1),
         (''total_script_runs'', PInt 2),
         (''total_time_seconds'', PFloat 0),
         (''per_day'', PDict [(KStr ''days'', PList [PStr ''2024-01-01'', PStr ''2024-01-02'']),
                             (KStr ''pageviews'', PList [PInt 1, PInt 0]),
                             (KStr ''script_runs'', PList [PInt 1, PInt 1])]),
         (''widgets'', PDict []),
         (''start_time'', PStr ''01 Jan 2024, 09:00:00'')],
      session_state :=
        [''user_tracked'' \<mapsto> SVal (PBool True),
         ''state_dict'' \<mapsto> SVal (PDict []),
         ''last_time'' \<mapsto> SDatetime 1704196800000000]\<rparr>"

definition clock_set_back :: clock where
  "clock_set_back = \<lparr>today = ''2024-01-01'', yesterday = ''2023-12-31'',
            now = 1704110400000000, now_text = ''01 Jan 2024, 12:00:00''\<rparr>"

text \<open>A snapshot whose \<^verbatim>\<open>per_day\<close> is out of order and ragged; one that is in order.\<close>

definition ragged_snapshot :: state where
  "ragged_snapshot = (module_load noon fresh_process)
     \<lparr>files := [''counts.json'' \<mapsto> Json_doc (PDict
        [(KStr ''per_day'', PDict [(KStr ''days'', PList [PStr ''2024-01-02'', PStr ''2024-01-01'']),
                                  (KStr ''pageviews'', PList [PInt 4]),
                                  (KStr ''script_runs'', PList [PInt 9, PInt 2])])])]\<rparr>"

definition tidy_snapshot :: state where
  "tidy_snapshot = (module_load noon fresh_process)
     \<lparr>files := [''counts.json'' \<mapsto> Json_doc (PDict
        [(KStr ''per_day'', PDict [(KStr ''days'', PList [PStr ''2023-12-31'', PStr ''2024-01-01'']),
                                  (KStr ''pageviews'', PList [PInt 4, PInt 1]),
                                  (KStr ''script_runs'', PList [PInt 9, PInt 2])])])]\<rparr>"

text \<open>
  Two snapshots that are valid JSON and whose keys are keys of \<^verbatim>\<open>counts\<close>: one whose
  \<^verbatim>\<open>per_day\<close> sequences are empty, one whose \<^verbatim>\<open>total_time_seconds\<close> is the integer
  \<open>2 ^ 1024\<close>.
\<close>

definition empty_days_snapshot :: state where
  "empty_days_snapshot = (module_load noon fresh_process)
     \<lparr>files := [''counts.json'' \<mapsto> Json_doc (PDict
        [(KStr ''per_day'', PDict [(KStr ''days'', PList []),
                                  (KStr ''pageviews'', PList []),
                                  (KStr ''script_runs'', PList [])])])]\<rparr>"

definition huge_time_snapshot :: state where
  "huge_time_snapshot = (module_load noon fresh_process)
     \<lparr>files := [''counts.json'' \<mapsto> Json_doc (PDict
        [(KStr ''total_time_seconds'', PInt (2 ^ 1024))])]\<rparr>"

text \<open>
  A session in which a widget value has been recorded, a body that writes one line, the
  state after a first \<^verbatim>\<open>start_tracking\<close> in a fresh process, and a request with the
  query string \<^verbatim>\<open>?analytics=none\<close>.
\<close>

definition mid_session :: state where
  "mid_session = two_days
     \<lparr>session_state := (session_state two_days)
        (''state_dict'' \<mapsto> SVal (PDict [(KStr ''Select your favorite'', PStr ''dog'')]))\<rparr>"

definition hello_body :: "state \<Rightarrow> state outcome" where
  "hello_body = st_write ''Hello''"

definition tracking_started :: state where
  "tracking_started =
     final (start_tracking quiet_host noon noon None ''counts'' None (module_load noon fresh_process))"

definition none_query :: state where
  "none_query = (module_load noon fresh_process)\<lparr>query_params := [''analytics'' \<mapsto> ''none'']\<rparr>"

text \<open>A store after a select box with the options 1 and 2 has been used.\<close>

definition int_keyed :: state where
  "int_keyed = (module_load noon fresh_process)
     \<lparr>counts := AList.update ''widgets''
        (PDict [(KStr ''Pick a number'', PDict [(KInt 1, PInt 0), (KInt 2, PInt 1)])])
        (counts (module_load noon fresh_process))\<rparr>"

section \<open>Properties\<close>

lemma fits_float_zero [simp]: "fits_float 0"
  by (simp add: fits_float_def)

lemma map_of_dict_update:
  "map_of (dict_update d ps) = fold (\<lambda>(k, v) m. m(k \<mapsto> v)) ps (map_of d)"
  unfolding dict_update_def
  by (induction ps arbitrary: d) (auto simp: update_conv')

lemma keys_dict_update:
  "fst ` set (dict_update d ps) = fst ` set d \<union> fst ` set ps"
proof (induction ps arbitrary: d)
  case Nil
  then show ?case by (simp add: dict_update_def)
next
  case (Cons p ps)
  have "fst ` set (dict_update (AList.update (fst p) (snd p) d) ps) =
          fst ` set (AList.update (fst p) (snd p) d) \<union> fst ` set ps"
    by (rule Cons.IH)
  then show ?case
    by (simp add: dict_update_def dom_update split_beta Un_assoc)
qed

text \<open>
  C10. \<^verbatim>\<open>reset_counts\<close> writes exactly the six keys \<^verbatim>\<open>total_pageviews\<close>,
  \<^verbatim>\<open>total_script_runs\<close>, \<^verbatim>\<open>total_time_seconds\<close>, \<^verbatim>\<open>per_day\<close>, \<^verbatim>\<open>widgets\<close> and
  \<^verbatim>\<open>start_time\<close>: the store after the reset is the store before it overwritten at these six
  keys, so every other key keeps its value. In particular \<^verbatim>\<open>loaded_from_firestore\<close> is
  unchanged and the guard of the remote load evaluates as before the reset. The new
  \<^verbatim>\<open>per_day.days\<close> is the one-element list holding yesterday's date string; it is today's
  only if the two strings coincide.
\<close>

theorem reset_counts_frame:
  "map_of (reset_counts clk c) =
     (map_of c)
       (''total_pageviews'' \<mapsto> PInt 0,
        ''total_script_runs'' \<mapsto> PInt 0,
        ''total_time_seconds'' \<mapsto> PInt 0,
        ''per_day'' \<mapsto> PDict [(KStr ''days'', PList [PStr (yesterday clk)]),
                             (KStr ''pageviews'', PList [PInt 0]),
                             (KStr ''script_runs'', PList [PInt 0])],
        ''widgets'' \<mapsto> PDict [],
        ''start_time'' \<mapsto> PStr (now_text clk))
   \<and> fst ` set (reset_counts clk c) =
       fst ` set c \<union> {''total_pageviews'', ''total_script_runs'', ''total_time_seconds'',
                        ''per_day'', ''widgets'', ''start_time''}
   \<and> map_of (reset_counts clk c) ''loaded_from_firestore'' = map_of c ''loaded_from_firestore''
   \<and> firestore_due kf (reset_counts clk c) = firestore_due kf c
   \<and> and_then (counts_get (reset_counts clk c) ''per_day'') (\<lambda>pd. getitem_str pd ''days'')
       = Inr (PList [PStr (yesterday clk)])
   \<and> (and_then (counts_get (reset_counts clk c) ''per_day'') (\<lambda>pd. getitem_str pd ''days'')
        = Inr (PList [PStr (today clk)]))
       = (yesterday clk = today clk)"
proof -
  have m: "map_of (reset_counts clk c) =
     (map_of c)
       (''total_pageviews'' \<mapsto> PInt 0,
        ''total_script_runs'' \<mapsto> PInt 0,
        ''total_time_seconds'' \<mapsto> PInt 0,
        ''per_day'' \<mapsto> PDict [(KStr ''days'', PList [PStr (yesterday clk)]),
                             (KStr ''pageviews'', PList [PInt 0]),
                             (KStr ''script_runs'', PList [PInt 0])],
        ''widgets'' \<mapsto> PDict [],
        ''start_time'' \<mapsto> PStr (now_text clk))"
    by (simp add: reset_counts_def map_of_dict_update)
  have k: "fst ` set (reset_counts clk c) =
       fst ` set c \<union> {''total_pageviews'', ''total_script_runs'', ''total_time_seconds'',
                        ''per_day'', ''widgets'', ''start_time''}"
    by (simp add: reset_counts_def keys_dict_update)
  have l: "map_of (reset_counts clk c) ''loaded_from_firestore'' = map_of c ''loaded_from_firestore''"
    by (simp add: m)
  have g: "firestore_due kf (reset_counts clk c) = firestore_due kf c"
    by (simp add: firestore_due_def counts_get_def l split: option.splits)
  have d: "and_then (counts_get (reset_counts clk c) ''per_day'') (\<lambda>pd. getitem_str pd ''days'')
       = Inr (PList [PStr (yesterday clk)])"
    by (simp add: and_then_def counts_get_def m)
  show ?thesis
    using m k l g d by simp
qed

lemma dict_update_Cons: "dict_update d ((k, v) # ps) = dict_update (AList.update k v d) ps"
  by (simp add: dict_update_def)

lemma map_of_dict_update_other:
  "k \<notin> fst ` set ps \<Longrightarrow> map_of (dict_update d ps) k = map_of d k"
proof (induction ps arbitrary: d)
  case Nil
  then show ?case by (simp add: dict_update_def)
next
  case (Cons p ps)
  obtain a b where ab: "p = (a, b)" by (cases p)
  with Cons.prems have "a \<noteq> k" "k \<notin> fst ` set ps" by auto
  then show ?case
    by (simp add: ab dict_update_Cons Cons.IH update_conv')
qed

lemma map_of_dict_update_same:
  "k \<in> fst ` set ps \<Longrightarrow> \<forall>v'. (k, v') \<in> set ps \<longrightarrow> v' = v \<Longrightarrow>
     map_of (dict_update d ps) k = Some v"
proof (induction ps arbitrary: d)
  case Nil
  then show ?case by simp
next
  case (Cons p ps)
  obtain a b where ab: "p = (a, b)" by (cases p)
  show ?case
  proof (cases "k \<in> fst ` set ps")
    case True
    with Cons show ?thesis by (simp add: ab dict_update_Cons)
  next
    case False
    with Cons.prems ab have "a = k" "b = v" by auto
    with False show ?thesis
      by (simp add: ab dict_update_Cons map_of_dict_update_other update_conv')
  qed
qed

lemma set_update_subset: "set (AList.update k v al) \<subseteq> insert (k, v) (set al)"
  by (induction al) auto

lemma set_dict_update_subset: "set (dict_update d ps) \<subseteq> set d \<union> set ps"
proof (induction ps arbitrary: d)
  case Nil
  then show ?case by (simp add: dict_update_def)
next
  case (Cons p ps)
  have "set (dict_update (AList.update (fst p) (snd p) d) ps) \<subseteq> set (AList.update (fst p) (snd p) d) \<union> set ps"
    by (rule Cons.IH)
  moreover have "set (AList.update (fst p) (snd p) d) \<subseteq> insert p (set d)"
    using set_update_subset [of "fst p" "snd p" d] by simp
  ultimately show ?case
    by (auto simp: dict_update_def split_beta)
qed

lemma keys_list_dict_update:
  "fst ` set ps \<subseteq> fst ` set d \<Longrightarrow> map fst (dict_update d ps) = map fst d"
proof (induction ps arbitrary: d)
  case Nil
  then show ?case by (simp add: dict_update_def)
next
  case (Cons p ps)
  have k: "map fst (AList.update (fst p) (snd p) d) = map fst d"
    using Cons.prems by (simp add: update_keys)
  then have "fst ` set ps \<subseteq> fst ` set (AList.update (fst p) (snd p) d)"
    using Cons.prems by (metis list.set_map set_subset_Cons subset_trans image_mono)
  then have "map fst (dict_update (AList.update (fst p) (snd p) d) ps) = map fst (AList.update (fst p) (snd p) d)"
    by (rule Cons.IH)
  with k show ?case by (simp add: dict_update_def split_beta)
qed

lemma present_items_object:
  "fst ` set al' \<subseteq> fst ` set al \<Longrightarrow>
   \<exists>d. present_items c (PDict al) (map (\<lambda>p. key_val (fst p)) al') = Inr d
     \<and> (\<forall>k v. (k, v) \<in> set d \<longrightarrow> k \<in> fst ` set c \<and> map_of al (KStr k) = Some v)
     \<and> (\<forall>k. KStr k \<in> fst ` set al' \<and> k \<in> fst ` set c \<longrightarrow> k \<in> fst ` set d)"
proof (induction al')
  case Nil
  then show ?case by simp
next
  case (Cons p al')
  then obtain d where d: "present_items c (PDict al) (map (\<lambda>p. key_val (fst p)) al') = Inr d"
     "\<forall>k v. (k, v) \<in> set d \<longrightarrow> k \<in> fst ` set c \<and> map_of al (KStr k) = Some v"
     "\<forall>k. KStr k \<in> fst ` set al' \<and> k \<in> fst ` set c \<longrightarrow> k \<in> fst ` set d"
    by auto
  show ?case
  proof (cases "fst p")
    case (KInt i)
    with d show ?thesis by auto
  next
    case (KStr k)
    show ?thesis
    proof (cases "k \<in> fst ` set c")
      case False
      with KStr d show ?thesis by auto
    next
      case True
      from Cons.prems KStr have "KStr k \<in> fst ` set al" by auto
      then obtain v where v: "map_of al (KStr k) = Some v"
        by (metis weak_map_of_SomeI imageE prod.collapse)
      with KStr True d show ?thesis
        by (auto simp: and_then_def)
    qed
  qed
qed

lemma merge_object:
  "\<exists>c'. merge_snapshot c (PDict al) = Inr c'
     \<and> map fst c' = map fst c
     \<and> (\<forall>k. map_of c' k =
           (if k \<in> fst ` set c
            then (case map_of al (KStr k) of Some v \<Rightarrow> Some v | None \<Rightarrow> map_of c k)
            else None))"
proof -
  obtain d where d: "present_items c (PDict al) (map (\<lambda>p. key_val (fst p)) al) = Inr d"
     "\<forall>k v. (k, v) \<in> set d \<longrightarrow> k \<in> fst ` set c \<and> map_of al (KStr k) = Some v"
     "\<forall>k. KStr k \<in> fst ` set al \<and> k \<in> fst ` set c \<longrightarrow> k \<in> fst ` set d"
    using present_items_object [of al al c] by auto
  define D where "D = dict_of_pairs d"
  define c' where "c' = dict_update c D"
  have m: "merge_snapshot c (PDict al) = Inr c'"
    by (simp add: merge_snapshot_def and_then_def d(1) c'_def D_def)
  have kD: "fst ` set D = fst ` set d"
    by (simp add: D_def dict_of_pairs_def keys_dict_update)
  have sD: "set D \<subseteq> set d"
    using set_dict_update_subset [of "[]" d] by (simp add: D_def dict_of_pairs_def)
  have sub: "fst ` set D \<subseteq> fst ` set c"
    using kD d(2) by force
  have keys: "map fst c' = map fst c"
    unfolding c'_def using sub by (rule keys_list_dict_update)
  have both: "map_of c' k = Some v" if "k \<in> fst ` set c" "map_of al (KStr k) = Some v" for k v
  proof -
    have "KStr k \<in> fst ` set al"
      using that(2) by (metis map_of_SomeD fst_conv image_eqI)
    then have "k \<in> fst ` set D" using d(3) that(1) kD by simp
    moreover have "\<forall>v'. (k, v') \<in> set D \<longrightarrow> v' = v"
      using sD d(2) that(2) by fastforce
    ultimately show ?thesis
      unfolding c'_def by (rule map_of_dict_update_same)
  qed
  have absent: "map_of c' k = None" if "k \<notin> fst ` set c" for k
  proof -
    have "k \<notin> fst ` set D" using sub that by auto
    then have "map_of c' k = map_of c k" unfolding c'_def by (rule map_of_dict_update_other)
    with that show ?thesis by (simp add: map_of_eq_None_iff)
  qed
  have memory: "map_of c' k = map_of c k" if "map_of al (KStr k) = None" for k
  proof -
    have "k \<notin> fst ` set d" using d(2) that by fastforce
    then have "k \<notin> fst ` set D" using kD by simp
    then show ?thesis unfolding c'_def by (rule map_of_dict_update_other)
  qed
  have "map_of c' k =
      (if k \<in> fst ` set c
       then (case map_of al (KStr k) of Some v \<Rightarrow> Some v | None \<Rightarrow> map_of c k)
       else None)" for k
    using both [of k] absent [of k] memory [of k] by (auto split: option.splits)
  with m keys show ?thesis by blast
qed

text \<open>
  C3. Merging a snapshot object (a JSON object, whatever its keys and values) into any
  in-memory store succeeds and leaves the store's keys, in their order, as they were: a key
  of the store that the snapshot also has takes the snapshot's value, a key that only the
  snapshot has is ignored, and a key that the snapshot lacks keeps its current value.
\<close>

theorem merge_snapshot_object:
  "\<exists>c'. merge_snapshot c (PDict al) = Inr c'
     \<and> map fst c' = map fst c
     \<and> (\<forall>k v. k \<in> fst ` set c \<and> map_of al (KStr k) = Some v \<longrightarrow> map_of c' k = Some v)
     \<and> (\<forall>k. k \<notin> fst ` set c \<longrightarrow> map_of c' k = None)
     \<and> (\<forall>k. map_of al (KStr k) = None \<longrightarrow> map_of c' k = map_of c k)"
proof -
  obtain c' where c': "merge_snapshot c (PDict al) = Inr c'" "map fst c' = map fst c"
      "\<forall>k. map_of c' k =
           (if k \<in> fst ` set c
            then (case map_of al (KStr k) of Some v \<Rightarrow> Some v | None \<Rightarrow> map_of c k)
            else None)"
    using merge_object [of c al] by blast
  have "map_of c' k = Some v" if "k \<in> fst ` set c" "map_of al (KStr k) = Some v" for k v
    using c'(3) that by simp
  moreover have "map_of c' k = None" if "k \<notin> fst ` set c" for k
    using c'(3) that by simp
  moreover have "map_of c' k = map_of c k" if n: "map_of al (KStr k) = None" for k
  proof (cases "k \<in> fst ` set c")
    case True
    then have "map_of c' k = (case map_of al (KStr k) of Some v \<Rightarrow> Some v | None \<Rightarrow> map_of c k)"
      using c'(3) by simp
    with n show ?thesis by (simp del: map_of_eq_None_iff)
  next
    case False
    then have "map_of c' k = None" using c'(3) by simp
    moreover from False have "map_of c k = None" by (simp add: map_of_eq_None_iff)
    ultimately show ?thesis by simp
  qed
  ultimately show ?thesis
    using c'(1,2) by blast
qed

theorem merge_snapshot_object_witness:
  "\<not> isl (merge_snapshot (reset_counts noon (counts fresh_process))
          (PDict [(KStr ''total_pageviews'', PInt 7), (KStr ''visitors'', PInt 3)]))
   \<and> map fst (projr (merge_snapshot (reset_counts noon (counts fresh_process))
          (PDict [(KStr ''total_pageviews'', PInt 7), (KStr ''visitors'', PInt 3)])))
        = map fst (reset_counts noon (counts fresh_process))
   \<and> map_of (projr (merge_snapshot (reset_counts noon (counts fresh_process))
          (PDict [(KStr ''total_pageviews'', PInt 7), (KStr ''visitors'', PInt 3)])))
          ''total_pageviews'' = Some (PInt 7)
   \<and> map_of (projr (merge_snapshot (reset_counts noon (counts fresh_process))
          (PDict [(KStr ''total_pageviews'', PInt 7), (KStr ''visitors'', PInt 3)])))
          ''visitors'' = None
   \<and> map_of (projr (merge_snapshot (reset_counts noon (counts fresh_process))
          (PDict [(KStr ''total_pageviews'', PInt 7), (KStr ''visitors'', PInt 3)])))
          ''total_script_runs'' = Some (PInt 0)"
proof -
  let ?c = "reset_counts noon (counts fresh_process)"
  let ?al = "[(KStr ''total_pageviews'', PInt 7), (KStr ''visitors'', PInt 3)]"
  have keys: "fst ` set ?c = {''total_pageviews'', ''total_script_runs'',
      ''total_time_seconds'', ''per_day'', ''widgets'', ''start_time'', ''loaded_from_firestore''}"
    by (simp add: reset_counts_def keys_dict_update fresh_process_def)
  have runs: "map_of ?c ''total_script_runs'' = Some (PInt 0)"
    by (simp add: reset_counts_def map_of_dict_update)
  obtain c' where c': "merge_snapshot ?c (PDict ?al) = Inr c'" "map fst c' = map fst ?c"
      "\<forall>k v. k \<in> fst ` set ?c \<and> map_of ?al (KStr k) = Some v \<longrightarrow> map_of c' k = Some v"
      "\<forall>k. k \<notin> fst ` set ?c \<longrightarrow> map_of c' k = None"
      "\<forall>k. map_of ?al (KStr k) = None \<longrightarrow> map_of c' k = map_of ?c k"
    using merge_snapshot_object [of ?c ?al] by blast
  have "map_of c' ''total_pageviews'' = Some (PInt 7)"
    using c'(3) keys by simp
  moreover have "map_of c' ''visitors'' = None"
    using c'(4) keys by simp
  moreover have "map_of c' ''total_script_runs'' = Some (PInt 0)"
    using c'(5) runs by simp
  ultimately show ?thesis
    using c'(2) by (simp only: c'(1) sum.sel sum.disc simp_thms)
qed

lemma firestore_step_files:
  "files (final (firestore_step h kf coll s)) = files s"
  by (auto simp: firestore_step_def py_if_def call_host_def on_counts_def
      split: sum.splits outcome.splits)

lemma load_step_caught: "load_counts path s = Inl e \<Longrightarrow> load_step (Some path) s = Returned s"
  by (simp add: load_step_def split: py_error.splits)

lemma load_step_None: "load_step None s = Returned s"
  by (simp add: load_step_def)

text \<open>
  C4. The load step of \<^verbatim>\<open>start_tracking\<close> never raises. When the snapshot file is
  missing, when its content does not parse, and whenever reading, parsing or merging raises,
  the step returns with the state, and so \<^verbatim>\<open>counts\<close>, unchanged. With a missing or
  malformed file the whole call of \<^verbatim>\<open>start_tracking\<close> behaves exactly as the call with
  \<^verbatim>\<open>load_from_json=None\<close>.
\<close>

theorem load_step_failures:
  "(\<exists>s'. load_step load_from_json s = Returned s')
   \<and> (\<forall>e. load_counts path s = Inl e \<longrightarrow> load_step (Some path) s = Returned s)
   \<and> (files s path = None \<longrightarrow> load_step (Some path) s = Returned s)
   \<and> (files s path = Some Not_json \<longrightarrow> load_step (Some path) s = Returned s)
   \<and> (files s path = None \<or> files s path = Some Not_json \<longrightarrow>
        start_tracking h clk0 clk kf coll (Some path) s = start_tracking h clk0 clk kf coll None s)"
proof -
  have total: "\<exists>s'. load_step load_from_json s = Returned s'"
    by (simp add: load_step_def split: option.splits sum.splits py_error.splits)
  have missing: "load_step (Some path) s' = Returned s'" if "files s' path = None" for s'
    using that by (intro load_step_caught [of _ _ FileNotFoundError]) (simp add: load_counts_def)
  have malformed: "load_step (Some path) s' = Returned s'" if "files s' path = Some Not_json" for s'
    using that by (intro load_step_caught [of _ _ JSONDecodeError]) (simp add: load_counts_def)
  have whole: "start_tracking h clk0 clk kf coll (Some path) s = start_tracking h clk0 clk kf coll None s"
    if f: "files s path = None \<or> files s path = Some Not_json"
  proof (cases "firestore_step h kf coll s")
    case (Returned s1)
    then have "files s1 = files s"
      using firestore_step_files [of h kf coll s] by simp
    with f have "load_step (Some path) s1 = Returned s1"
      using missing [of s1] malformed [of s1] by auto
    with Returned show ?thesis
      by (simp add: start_tracking_def load_step_None)
  next
    case (Raised e s1)
    then show ?thesis by (simp add: start_tracking_def)
  qed
  show ?thesis
    using total load_step_caught missing malformed whole by blast
qed

theorem load_step_failures_witness:
  "files (module_load noon fresh_process) ''counts.json'' = None
   \<and> load_step (Some ''counts.json'') (module_load noon fresh_process)
        = Returned (module_load noon fresh_process)
   \<and> start_tracking quiet_host noon noon None ''counts'' (Some ''counts.json'') (module_load noon fresh_process)
        = start_tracking quiet_host noon noon None ''counts'' None (module_load noon fresh_process)"
proof -
  have f: "files (module_load noon fresh_process) ''counts.json'' = None"
    by (simp add: module_load_def fresh_process_def)
  with load_step_failures [of "Some ''counts.json''" "module_load noon fresh_process" "''counts.json''"
      quiet_host noon noon None "''counts''"]
  show ?thesis by simp
qed


lemma per_day_listsD:
  assumes "per_day_lists c = Some (ds, pv, sr)"
  obtains pd where "map_of c ''per_day'' = Some (PDict pd)"
    "map_of pd (KStr ''days'') = Some (PList ds)"
    "map_of pd (KStr ''pageviews'') = Some (PList pv)"
    "map_of pd (KStr ''script_runs'') = Some (PList sr)"
proof -
  from assms obtain v where v: "map_of c ''per_day'' = Some v" "three_lists v = Some (ds, pv, sr)"
    by (auto simp: per_day_lists_def split: option.splits)
  then obtain pd where "v = PDict pd" by (cases v) auto
  with v that show ?thesis
    by (auto split: option.splits pyval.splits)
qed

lemma new_day_effect:
  assumes "per_day_lists (counts s) = Some (ds, pv, sr)" "ds \<noteq> []"
  shows "\<exists>s'. new_day clk s = Returned s' \<and> s' = s\<lparr>counts := counts s'\<rparr>
     \<and> per_day_lists (counts s') =
          Some (if last ds = PStr (today clk) then (ds, pv, sr)
                else (ds @ [PStr (today clk)], pv @ [PInt 0], sr @ [PInt 0]))
     \<and> (\<forall>k. k \<noteq> ''per_day'' \<longrightarrow> map_of (counts s') k = map_of (counts s) k)"
proof -
  from assms(1) obtain pd where pd: "map_of (counts s) ''per_day'' = Some (PDict pd)"
    "map_of pd (KStr ''days'') = Some (PList ds)"
    "map_of pd (KStr ''pageviews'') = Some (PList pv)"
    "map_of pd (KStr ''script_runs'') = Some (PList sr)"
    by (rule per_day_listsD)
  show ?thesis
  proof (cases "last ds = PStr (today clk)")
    case True
    have "new_day clk s = Returned s"
      using pd assms(2) True
      by (simp add: new_day_def py_if_def day_changed_def and_then_def counts_get_def)
    with True assms(1) show ?thesis by simp
  next
    case False
    show ?thesis
      using pd assms(2) False
      by (simp add: new_day_def py_if_def day_changed_def and_then_def counts_get_def
        on_counts_def per_day_at_def counts_at_def update_conv' per_day_lists_def)
  qed
qed


lemma add_float_addable: "float_addable v \<Longrightarrow> \<exists>v'. add_float x v = Inr v' \<and> float_addable v'"
  by (cases v) auto

lemma count_run_effect:
  assumes "per_day_lists (counts s) = Some (ds, pv, sr)"
    and "sr \<noteq> []" "last sr = PInt n" "pv \<noteq> []" "last pv = PInt m"
    and "map_of (counts s) ''total_script_runs'' = Some (PInt r)"
    and "map_of (counts s) ''total_pageviews'' = Some (PInt p)"
    and "map_of (counts s) ''total_time_seconds'' = Some tv" "float_addable tv"
    and "session_state s ''last_time'' = Some (SDatetime t0)"
    and "session_state s ''user_tracked'' = Some (SVal (PBool b))"
  shows "\<exists>s'. run (count_run clk) s = Returned s'
     \<and> s' = s\<lparr>counts := counts s', session_state := session_state s'\<rparr>
     \<and> per_day_lists (counts s') =
          Some (ds, butlast pv @ [PInt (m + (if b then 0 else 1))], butlast sr @ [PInt (n + 1)])
     \<and> map_of (counts s') ''total_script_runs'' = Some (PInt (r + 1))
     \<and> map_of (counts s') ''total_pageviews'' = Some (PInt (p + (if b then 0 else 1)))
     \<and> (\<exists>tv'. map_of (counts s') ''total_time_seconds'' = Some tv' \<and> float_addable tv')
     \<and> session_state s' = (session_state s)(''last_time'' \<mapsto> SDatetime (now clk),
            ''user_tracked'' \<mapsto> SVal (PBool True))"
proof -
  from assms(1) obtain pd where pd: "map_of (counts s) ''per_day'' = Some (PDict pd)"
    "map_of pd (KStr ''days'') = Some (PList ds)"
    "map_of pd (KStr ''pageviews'') = Some (PList pv)"
    "map_of pd (KStr ''script_runs'') = Some (PList sr)"
    by (rule per_day_listsD)
  obtain tv' where tv': "add_float (real_of_int (now clk - t0) / 1000000) tv = Inr tv'" "float_addable tv'"
    using add_float_addable [OF assms(9)] by blast
  show ?thesis
  proof (cases b)
    case True
    have u: "(session_state s)(''last_time'' \<mapsto> SDatetime (now clk), ''user_tracked'' \<mapsto> SVal (PBool True))
       = (session_state s)(''last_time'' \<mapsto> SDatetime (now clk))"
      using assms(11) True by (auto simp: fun_eq_iff)
    have bl: "butlast pv @ [PInt m] = pv"
      using assms(4,5) by (metis append_butlast_last_id)
    show ?thesis
      using pd assms(2-8,10,11) tv' True bl
      by (simp add: count_run_def on_counts_def counts_at_def per_day_at_def add_elapsed_def
        set_session_def py_if_def not_user_tracked_def update_conv' per_day_lists_def u)
  next
    case False
    show ?thesis
      using pd assms(2-8,10,11) tv' False
      by (simp add: count_run_def on_counts_def counts_at_def per_day_at_def add_elapsed_def
        set_session_def py_if_def not_user_tracked_def update_conv' per_day_lists_def fun_upd_twist)
  qed
qed


lemma is_int_last: "xs \<noteq> [] \<Longrightarrow> list_all is_int xs \<Longrightarrow> \<exists>n. last xs = PInt n"
proof -
  assume "xs \<noteq> []" "list_all is_int xs"
  then have "is_int (last xs)" by (simp add: list_all_iff)
  then show ?thesis by (cases "last xs") auto
qed

lemma list_all_butlast: "list_all P xs \<Longrightarrow> list_all P (butlast xs)"
  by (auto simp: list_all_iff dest: in_set_butlastD)

lemma track_user_step:
  assumes wf: "well_formed s"
    and p: "map_of (counts s) ''total_pageviews'' = Some (PInt p)"
    and r: "map_of (counts s) ''total_script_runs'' = Some (PInt r)"
    and b: "session_state s ''user_tracked'' = Some (SVal (PBool b))"
  shows "\<exists>s'. run (new_day clk # count_run clk) s = Returned s' \<and> well_formed s'
     \<and> map_of (counts s') ''total_pageviews'' = Some (PInt (p + (if b then 0 else 1)))
     \<and> map_of (counts s') ''total_script_runs'' = Some (PInt (r + 1))
     \<and> session_state s' ''user_tracked'' = Some (SVal (PBool True))"
proof -
  from wf obtain ds pv sr where l: "per_day_lists (counts s) = Some (ds, pv, sr)"
    and ne: "ds \<noteq> []" "pv \<noteq> []" "sr \<noteq> []" and ints: "list_all is_int pv" "list_all is_int sr"
    by (auto simp: well_formed_def well_formed_store_def split: option.splits)
  from wf obtain tv where tv: "map_of (counts s) ''total_time_seconds'' = Some tv" "float_addable tv"
    by (auto simp: well_formed_def well_formed_store_def split: option.splits)
  from wf obtain t0 where t0: "session_state s ''last_time'' = Some (SDatetime t0)"
    by (auto simp: well_formed_def well_formed_store_def split: option.splits sval.splits)
  define ds1 where "ds1 = (if last ds = PStr (today clk) then ds else ds @ [PStr (today clk)])"
  define pv1 where "pv1 = (if last ds = PStr (today clk) then pv else pv @ [PInt 0])"
  define sr1 where "sr1 = (if last ds = PStr (today clk) then sr else sr @ [PInt 0])"
  obtain s1 where s1: "new_day clk s = Returned s1" "s1 = s\<lparr>counts := counts s1\<rparr>"
      "per_day_lists (counts s1) = Some (ds1, pv1, sr1)"
      "\<forall>k. k \<noteq> ''per_day'' \<longrightarrow> map_of (counts s1) k = map_of (counts s) k"
    using new_day_effect [OF l ne(1), of clk] by (auto simp: ds1_def pv1_def sr1_def)
  have ne1: "pv1 \<noteq> []" "sr1 \<noteq> []" and ints1: "list_all is_int pv1" "list_all is_int sr1"
    and ds1: "ds1 \<noteq> []"
    using ne ints by (auto simp: pv1_def sr1_def ds1_def)
  obtain n m where nm: "last sr1 = PInt n" "last pv1 = PInt m"
    using is_int_last [OF ne1(1) ints1(1)] is_int_last [OF ne1(2) ints1(2)] by blast
  have sess1: "session_state s1 = session_state s"
    using s1(2) by (metis state.select_convs(2) state.surjective state.update_convs(1))
  have k1: "map_of (counts s1) ''total_script_runs'' = Some (PInt r)"
       "map_of (counts s1) ''total_pageviews'' = Some (PInt p)"
       "map_of (counts s1) ''total_time_seconds'' = Some tv"
    using s1(4) p r tv by simp_all
  obtain s2 where s2: "run (count_run clk) s1 = Returned s2"
      "per_day_lists (counts s2) =
          Some (ds1, butlast pv1 @ [PInt (m + (if b then 0 else 1))], butlast sr1 @ [PInt (n + 1)])"
      "map_of (counts s2) ''total_script_runs'' = Some (PInt (r + 1))"
      "map_of (counts s2) ''total_pageviews'' = Some (PInt (p + (if b then 0 else 1)))"
      "\<exists>tv'. map_of (counts s2) ''total_time_seconds'' = Some tv' \<and> float_addable tv'"
      "session_state s2 = (session_state s1)(''last_time'' \<mapsto> SDatetime (now clk),
            ''user_tracked'' \<mapsto> SVal (PBool True))"
    using count_run_effect [OF s1(3) ne1(2) nm(1) ne1(1) nm(2) k1(1) k1(2) k1(3) tv(2), of t0 b clk]
      t0 b sess1 by auto
  have "well_formed s2"
    using s2(2-6) ds1 ints1
    by (auto simp: well_formed_def well_formed_store_def list_all_butlast)
  moreover have "run (new_day clk # count_run clk) s = Returned s2"
    using s1(1) s2(1) by simp
  ultimately show ?thesis
    using s2(3,4,6) by auto
qed


lemma init_session_fresh:
  "init_session noon (module_load noon fresh_process) =
     Returned ((module_load noon fresh_process)
       \<lparr>session_state := [''user_tracked'' \<mapsto> SVal (PBool False),
                          ''state_dict'' \<mapsto> SVal (PDict []),
                          ''last_time'' \<mapsto> SDatetime (now noon)]\<rparr>)"
  by (simp add: init_session_def py_if_def set_session_def module_load_def fresh_process_def)

lemma reset_counts_well_formed: "well_formed_store (reset_counts clk c)"
  by (simp add: well_formed_store_def per_day_lists_def reset_counts_def map_of_dict_update)

lemma well_formed_parts:
  "well_formed s \<Longrightarrow> well_formed_store (counts s) \<and> session_keys_ok (session_state s)"
  by (auto simp: well_formed_def session_keys_ok_def split: option.splits sval.splits pyval.splits)

lemma init_session_keys:
  assumes "session_keys_ok (session_state s)"
  shows "\<exists>s3 t. init_session clk0 s = Returned s3 \<and> counts s3 = counts s
     \<and> session_state s3 ''user_tracked'' =
          Some (SVal (PBool (session_state s ''user_tracked'' = Some (SVal (PBool True)))))
     \<and> session_state s3 ''last_time'' = Some (SDatetime t)"
proof -
  from assms have u: "session_state s ''user_tracked'' = None
      \<or> (\<exists>b. session_state s ''user_tracked'' = Some (SVal (PBool b)))"
    by (auto simp: session_keys_ok_def split: option.splits sval.splits pyval.splits)
  from assms have l: "session_state s ''last_time'' = None
      \<or> (\<exists>t. session_state s ''last_time'' = Some (SDatetime t))"
    by (auto simp: session_keys_ok_def split: option.splits sval.splits)
  from u l show ?thesis
    by (auto simp: init_session_def py_if_def set_session_def)
qed

lemma init_and_track_step:
  assumes st: "well_formed_store (counts s)"
    and se: "session_keys_ok (session_state s)"
    and p: "map_of (counts s) ''total_pageviews'' = Some (PInt p)"
    and r: "map_of (counts s) ''total_script_runs'' = Some (PInt r)"
  shows "\<exists>s1. init_and_track clk0 clk s = Returned s1 \<and> well_formed s1
     \<and> map_of (counts s1) ''total_pageviews'' =
          Some (PInt (p + (if session_state s ''user_tracked'' = Some (SVal (PBool True)) then 0 else 1)))
     \<and> map_of (counts s1) ''total_script_runs'' = Some (PInt (r + 1))
     \<and> session_state s1 ''user_tracked'' = Some (SVal (PBool True))"
proof -
  define b where "b = (session_state s ''user_tracked'' = Some (SVal (PBool True)))"
  obtain s3 t where s3: "init_session clk0 s = Returned s3" "counts s3 = counts s"
      "session_state s3 ''user_tracked'' = Some (SVal (PBool b))"
      "session_state s3 ''last_time'' = Some (SDatetime t)"
    using init_session_keys [OF se, of clk0] unfolding b_def by blast
  have wf: "well_formed s3"
    using st s3(2-4) by (simp add: well_formed_def)
  obtain s1 where s1: "run (new_day clk # count_run clk) s3 = Returned s1" "well_formed s1"
      "map_of (counts s1) ''total_pageviews'' = Some (PInt (p + (if b then 0 else 1)))"
      "map_of (counts s1) ''total_script_runs'' = Some (PInt (r + 1))"
      "session_state s1 ''user_tracked'' = Some (SVal (PBool True))"
    using track_user_step [OF wf _ _ s3(3), of p r clk] p r s3(2) by auto
  have "init_and_track clk0 clk s = Returned s1"
    using s3(1) s1(1) by (simp add: init_and_track_def track_user_def)
  with s1(2-5) show ?thesis
    unfolding b_def by blast
qed

lemma start_tracking_step:
  assumes st: "well_formed_store (counts s)"
    and se: "session_keys_ok (session_state s)"
    and p: "map_of (counts s) ''total_pageviews'' = Some (PInt p)"
    and r: "map_of (counts s) ''total_script_runs'' = Some (PInt r)"
  shows "\<exists>s1. start_tracking h clk0 clk None coll None s = Returned s1 \<and> well_formed s1
     \<and> map_of (counts s1) ''total_pageviews'' =
          Some (PInt (p + (if session_state s ''user_tracked'' = Some (SVal (PBool True)) then 0 else 1)))
     \<and> map_of (counts s1) ''total_script_runs'' = Some (PInt (r + 1))
     \<and> session_state s1 ''user_tracked'' = Some (SVal (PBool True))"
proof -
  obtain s4 where s4: "init_and_track clk0 clk s = Returned s4" "well_formed s4"
      "map_of (counts s4) ''total_pageviews'' =
          Some (PInt (p + (if session_state s ''user_tracked'' = Some (SVal (PBool True)) then 0 else 1)))"
      "map_of (counts s4) ''total_script_runs'' = Some (PInt (r + 1))"
      "session_state s4 ''user_tracked'' = Some (SVal (PBool True))"
    using init_and_track_step [OF assms, of clk0 clk] by blast
  define s1 where "s1 = s4\<lparr>st_attr := fold (\<lambda>(e, w) a. a(e := Wrapped w (orig s4 e))) patched (st_attr s4)\<rparr>"
  have "firestore_step h None coll s = Returned s"
    by (simp add: firestore_step_def py_if_def firestore_due_def)
  moreover have "load_step None s = Returned s"
    by (rule load_step_None)
  moreover obtain s3 where "init_session clk0 s = Returned s3" "track_user clk s3 = Returned s4"
    using s4(1) by (auto simp: init_and_track_def split: outcome.splits)
  ultimately have "start_tracking h clk0 clk None coll None s = Returned s1"
    by (simp add: start_tracking_def patch_def s1_def)
  moreover have "well_formed s1" "counts s1 = counts s4" "session_state s1 = session_state s4"
    using s4(2) by (simp_all add: well_formed_def s1_def)
  ultimately show ?thesis
    using s4(3-5) by auto
qed

lemma steps_count:
  fixes f :: "'a \<Rightarrow> state \<Rightarrow> state outcome"
  assumes step: "\<And>x s p r. well_formed_store (counts s) \<Longrightarrow> session_keys_ok (session_state s)
      \<Longrightarrow> map_of (counts s) ''total_pageviews'' = Some (PInt p)
      \<Longrightarrow> map_of (counts s) ''total_script_runs'' = Some (PInt r)
      \<Longrightarrow> \<exists>s1. f x s = Returned s1 \<and> well_formed s1
           \<and> map_of (counts s1) ''total_pageviews'' =
                Some (PInt (p + (if session_state s ''user_tracked'' = Some (SVal (PBool True)) then 0 else 1)))
           \<and> map_of (counts s1) ''total_script_runs'' = Some (PInt (r + 1))
           \<and> session_state s1 ''user_tracked'' = Some (SVal (PBool True))"
    and "well_formed_store (counts s)"
    and "session_keys_ok (session_state s)"
    and "map_of (counts s) ''total_pageviews'' = Some (PInt p)"
    and "map_of (counts s) ''total_script_runs'' = Some (PInt r)"
  shows "\<exists>s'. run (map f xs) s = Returned s'
     \<and> well_formed_store (counts s') \<and> session_keys_ok (session_state s')
     \<and> map_of (counts s') ''total_pageviews'' =
          Some (PInt (p + (if session_state s ''user_tracked'' = Some (SVal (PBool True)) \<or> xs = []
                           then 0 else 1)))
     \<and> map_of (counts s') ''total_script_runs'' = Some (PInt (r + int (length xs)))"
  using assms(2-)
proof (induction xs arbitrary: s p r)
  case Nil
  then show ?case by simp
next
  case (Cons x xs)
  define q where "q = p + (if session_state s ''user_tracked'' = Some (SVal (PBool True)) then 0 else 1)"
  obtain s1 where s1: "f x s = Returned s1" "well_formed s1"
      "map_of (counts s1) ''total_pageviews'' = Some (PInt q)"
      "map_of (counts s1) ''total_script_runs'' = Some (PInt (r + 1))"
      "session_state s1 ''user_tracked'' = Some (SVal (PBool True))"
    using step [OF Cons.prems, of x] unfolding q_def by blast
  have ok: "well_formed_store (counts s1)" "session_keys_ok (session_state s1)"
    using well_formed_parts [OF s1(2)] by simp_all
  obtain s' where s': "run (map f xs) s1 = Returned s'"
      "well_formed_store (counts s')" "session_keys_ok (session_state s')"
      "map_of (counts s') ''total_pageviews'' =
         Some (PInt (q + (if session_state s1 ''user_tracked'' = Some (SVal (PBool True)) \<or> xs = []
                          then 0 else 1)))"
      "map_of (counts s') ''total_script_runs'' = Some (PInt (r + 1 + int (length xs)))"
    using Cons.IH [OF ok s1(3,4)] by blast
  have "run (map f (x # xs)) s = Returned s'"
    using s1(1) s'(1) by simp
  then show ?case
    using s'(2-5) s1(5) by (auto simp: q_def algebra_simps)
qed

text \<open>
  C1 (as amended). Take a store that is well formed (non-empty \<^verbatim>\<open>per_day\<close> sequences with
  integer counters, integer totals, a \<^verbatim>\<open>total_time_seconds\<close> to which a float can be
  added) and a session whose keys \<^verbatim>\<open>user_tracked\<close> and \<^verbatim>\<open>last_time\<close> are absent or as
  \<^verbatim>\<open>start_tracking\<close> leaves them. Then every sequence of N runs of lines 152 to 159, the
  session initialisation followed by \<^verbatim>\<open>_track_user\<close>, returns, raises
  \<^verbatim>\<open>total_script_runs\<close> by exactly N, and raises \<^verbatim>\<open>total_pageviews\<close> by exactly 1 when N is
  not 0 and \<^verbatim>\<open>user_tracked\<close> was not already true, by 0 otherwise: the pageview is counted
  by the first call only. The same holds of N calls of \<^verbatim>\<open>start_tracking\<close> that load
  nothing. The store stays well formed, and \<^verbatim>\<open>reset_counts\<close> always makes a well-formed
  store; a new session has neither key.
\<close>

theorem session_reruns_count:
  assumes "well_formed_store (counts s)"
    and "session_keys_ok (session_state s)"
    and "map_of (counts s) ''total_pageviews'' = Some (PInt p)"
    and "map_of (counts s) ''total_script_runs'' = Some (PInt r)"
  shows "(\<exists>s'. run (map (\<lambda>(clk0, clk). init_and_track clk0 clk) cs) s = Returned s'
        \<and> well_formed_store (counts s') \<and> session_keys_ok (session_state s')
        \<and> map_of (counts s') ''total_pageviews'' =
             Some (PInt (p + (if session_state s ''user_tracked'' = Some (SVal (PBool True)) \<or> cs = []
                              then 0 else 1)))
        \<and> map_of (counts s') ''total_script_runs'' = Some (PInt (r + int (length cs))))
     \<and> (\<exists>s'. run (map (\<lambda>(clk0, clk). start_tracking h clk0 clk None coll None) cs) s = Returned s'
        \<and> well_formed_store (counts s') \<and> session_keys_ok (session_state s')
        \<and> map_of (counts s') ''total_pageviews'' =
             Some (PInt (p + (if session_state s ''user_tracked'' = Some (SVal (PBool True)) \<or> cs = []
                              then 0 else 1)))
        \<and> map_of (counts s') ''total_script_runs'' = Some (PInt (r + int (length cs))))
     \<and> well_formed_store (reset_counts clk' c')
     \<and> session_keys_ok Map.empty"
proof (intro conjI)
  show "\<exists>s'. run (map (\<lambda>(clk0, clk). init_and_track clk0 clk) cs) s = Returned s'
        \<and> well_formed_store (counts s') \<and> session_keys_ok (session_state s')
        \<and> map_of (counts s') ''total_pageviews'' =
             Some (PInt (p + (if session_state s ''user_tracked'' = Some (SVal (PBool True)) \<or> cs = []
                              then 0 else 1)))
        \<and> map_of (counts s') ''total_script_runs'' = Some (PInt (r + int (length cs)))"
  proof (rule steps_count [OF _ assms])
    fix x :: "clock \<times> clock" and s :: state and p r
    assume "well_formed_store (counts s)" "session_keys_ok (session_state s)"
      "map_of (counts s) ''total_pageviews'' = Some (PInt p)"
      "map_of (counts s) ''total_script_runs'' = Some (PInt r)"
    from init_and_track_step [OF this, of "fst x" "snd x"]
    show "\<exists>s1. (case x of (clk0, clk) \<Rightarrow> init_and_track clk0 clk) s = Returned s1 \<and> well_formed s1
           \<and> map_of (counts s1) ''total_pageviews'' =
                Some (PInt (p + (if session_state s ''user_tracked'' = Some (SVal (PBool True)) then 0 else 1)))
           \<and> map_of (counts s1) ''total_script_runs'' = Some (PInt (r + 1))
           \<and> session_state s1 ''user_tracked'' = Some (SVal (PBool True))"
      by (simp add: split_beta)
  qed
  show "\<exists>s'. run (map (\<lambda>(clk0, clk). start_tracking h clk0 clk None coll None) cs) s = Returned s'
        \<and> well_formed_store (counts s') \<and> session_keys_ok (session_state s')
        \<and> map_of (counts s') ''total_pageviews'' =
             Some (PInt (p + (if session_state s ''user_tracked'' = Some (SVal (PBool True)) \<or> cs = []
                              then 0 else 1)))
        \<and> map_of (counts s') ''total_script_runs'' = Some (PInt (r + int (length cs)))"
  proof (rule steps_count [OF _ assms])
    fix x :: "clock \<times> clock" and s :: state and p r
    assume "well_formed_store (counts s)" "session_keys_ok (session_state s)"
      "map_of (counts s) ''total_pageviews'' = Some (PInt p)"
      "map_of (counts s) ''total_script_runs'' = Some (PInt r)"
    from start_tracking_step [OF this, of h "fst x" "snd x" coll]
    show "\<exists>s1. (case x of (clk0, clk) \<Rightarrow> start_tracking h clk0 clk None coll None) s = Returned s1
           \<and> well_formed s1
           \<and> map_of (counts s1) ''total_pageviews'' =
                Some (PInt (p + (if session_state s ''user_tracked'' = Some (SVal (PBool True)) then 0 else 1)))
           \<and> map_of (counts s1) ''total_script_runs'' = Some (PInt (r + 1))
           \<and> session_state s1 ''user_tracked'' = Some (SVal (PBool True))"
      by (simp add: split_beta)
  qed
  show "well_formed_store (reset_counts clk' c')"
    by (rule reset_counts_well_formed)
  show "session_keys_ok Map.empty"
    by (simp add: session_keys_ok_def)
qed

theorem session_reruns_count_witness:
  "well_formed_store (counts (module_load noon fresh_process))
   \<and> session_keys_ok (session_state (module_load noon fresh_process))
   \<and> map_of (counts (module_load noon fresh_process)) ''total_pageviews'' = Some (PInt 0)
   \<and> map_of (counts (module_load noon fresh_process)) ''total_script_runs'' = Some (PInt 0)
   \<and> returns (run [init_and_track noon noon, init_and_track evening evening,
                   init_and_track next_morning next_morning] (module_load noon fresh_process))
   \<and> map_of (counts (final (run [init_and_track noon noon, init_and_track evening evening,
                   init_and_track next_morning next_morning] (module_load noon fresh_process))))
        ''total_pageviews'' = Some (PInt 1)
   \<and> map_of (counts (final (run [init_and_track noon noon, init_and_track evening evening,
                   init_and_track next_morning next_morning] (module_load noon fresh_process))))
        ''total_script_runs'' = Some (PInt 3)
   \<and> returns (run [start_tracking quiet_host noon noon None ''counts'' None,
                   start_tracking quiet_host evening evening None ''counts'' None,
                   start_tracking quiet_host next_morning next_morning None ''counts'' None]
                (module_load noon fresh_process))
   \<and> map_of (counts (final (run [start_tracking quiet_host noon noon None ''counts'' None,
                   start_tracking quiet_host evening evening None ''counts'' None,
                   start_tracking quiet_host next_morning next_morning None ''counts'' None]
                (module_load noon fresh_process)))) ''total_pageviews'' = Some (PInt 1)
   \<and> map_of (counts (final (run [start_tracking quiet_host noon noon None ''counts'' None,
                   start_tracking quiet_host evening evening None ''counts'' None,
                   start_tracking quiet_host next_morning next_morning None ''counts'' None]
                (module_load noon fresh_process)))) ''total_script_runs'' = Some (PInt 3)"
proof -
  let ?s = "module_load noon fresh_process"
  let ?cs = "[(noon, noon), (evening, evening), (next_morning, next_morning)]"
  have c: "counts ?s = reset_counts noon [(''loaded_from_firestore'', PBool False)]"
    by (simp add: module_load_def fresh_process_def)
  have wf: "well_formed_store (counts ?s)"
    unfolding c by (rule reset_counts_well_formed)
  have se: "session_keys_ok (session_state ?s)"
    by (simp add: module_load_def fresh_process_def session_keys_ok_def)
  have m: "map_of (counts ?s) ''total_pageviews'' = Some (PInt 0)"
      "map_of (counts ?s) ''total_script_runs'' = Some (PInt 0)"
    unfolding c by (simp_all add: reset_counts_def map_of_dict_update)
  have u: "session_state ?s ''user_tracked'' = None"
    by (simp add: module_load_def fresh_process_def)
  note t = session_reruns_count [OF wf se m, of ?cs quiet_host "''counts''" noon "[]"]
  obtain s' where s': "run (map (\<lambda>(clk0, clk). init_and_track clk0 clk) ?cs) ?s = Returned s'"
      "map_of (counts s') ''total_pageviews'' = Some (PInt 1)"
      "map_of (counts s') ''total_script_runs'' = Some (PInt 3)"
    using t by (auto simp: u)
  obtain s'' where s'': "run (map (\<lambda>(clk0, clk). start_tracking quiet_host clk0 clk None ''counts'' None) ?cs) ?s
        = Returned s''"
      "map_of (counts s'') ''total_pageviews'' = Some (PInt 1)"
      "map_of (counts s'') ''total_script_runs'' = Some (PInt 3)"
    using t by (auto simp: u)
  have l: "map (\<lambda>(clk0, clk). init_and_track clk0 clk) ?cs =
        [init_and_track noon noon, init_and_track evening evening,
         init_and_track next_morning next_morning]"
      "map (\<lambda>(clk0, clk). start_tracking quiet_host clk0 clk None ''counts'' None) ?cs =
        [start_tracking quiet_host noon noon None ''counts'' None,
         start_tracking quiet_host evening evening None ''counts'' None,
         start_tracking quiet_host next_morning next_morning None ''counts'' None]"
    by simp_all
  show ?thesis
    using wf se m s' s'' unfolding l
    by (simp only: final.simps returns.simps simp_thms)
qed

lemma not_fits_float: "\<not> fits_float (2 ^ 1024)"
  by (simp add: fits_float_def)

lemma track_user_empty_days:
  assumes "map_of (counts s) ''per_day'' = Some (PDict pd)"
    and "map_of pd (KStr ''days'') = Some (PList [])"
  shows "track_user clk s = Raised IndexError s"
  using assms
  by (simp add: track_user_def new_day_def py_if_def day_changed_def and_then_def counts_get_def)

lemma count_run_overflow:
  assumes "per_day_lists (counts s) = Some (ds, pv, sr)"
    and "sr \<noteq> []" "last sr = PInt n"
    and "map_of (counts s) ''total_script_runs'' = Some (PInt r)"
    and "map_of (counts s) ''total_pageviews'' = Some (PInt p)"
    and "map_of (counts s) ''total_time_seconds'' = Some (PInt i)" "\<not> fits_float i"
    and "session_state s ''last_time'' = Some (SDatetime t0)"
  shows "\<exists>s'. run (count_run clk) s = Raised OverflowError s'
     \<and> map_of (counts s') ''total_pageviews'' = Some (PInt p)
     \<and> map_of (counts s') ''total_script_runs'' = Some (PInt (r + 1))
     \<and> session_state s' = session_state s"
proof -
  from assms(1) obtain pd where pd: "map_of (counts s) ''per_day'' = Some (PDict pd)"
    "map_of pd (KStr ''days'') = Some (PList ds)"
    "map_of pd (KStr ''pageviews'') = Some (PList pv)"
    "map_of pd (KStr ''script_runs'') = Some (PList sr)"
    by (rule per_day_listsD)
  show ?thesis
    using pd assms(2-8)
    by (simp add: count_run_def on_counts_def counts_at_def per_day_at_def add_elapsed_def
        update_conv')
qed

lemma track_user_overflow:
  assumes l: "per_day_lists (counts s) = Some (ds, pv, sr)"
    and ne: "ds \<noteq> []" "sr \<noteq> []" and ints: "list_all is_int sr"
    and r: "map_of (counts s) ''total_script_runs'' = Some (PInt r)"
    and p: "map_of (counts s) ''total_pageviews'' = Some (PInt p)"
    and t: "map_of (counts s) ''total_time_seconds'' = Some (PInt i)" "\<not> fits_float i"
    and t0: "session_state s ''last_time'' = Some (SDatetime t0)"
  shows "\<exists>s'. track_user clk s = Raised OverflowError s'
     \<and> map_of (counts s') ''total_pageviews'' = Some (PInt p)
     \<and> map_of (counts s') ''total_script_runs'' = Some (PInt (r + 1))
     \<and> session_state s' = session_state s"
proof -
  define ds1 where "ds1 = (if last ds = PStr (today clk) then ds else ds @ [PStr (today clk)])"
  define pv1 where "pv1 = (if last ds = PStr (today clk) then pv else pv @ [PInt 0])"
  define sr1 where "sr1 = (if last ds = PStr (today clk) then sr else sr @ [PInt 0])"
  obtain s1 where s1: "new_day clk s = Returned s1" "s1 = s\<lparr>counts := counts s1\<rparr>"
      "per_day_lists (counts s1) = Some (ds1, pv1, sr1)"
      "\<forall>k. k \<noteq> ''per_day'' \<longrightarrow> map_of (counts s1) k = map_of (counts s) k"
    using new_day_effect [OF l ne(1), of clk] by (auto simp: ds1_def pv1_def sr1_def)
  have ne1: "sr1 \<noteq> []" and ints1: "list_all is_int sr1"
    using ne ints by (auto simp: sr1_def)
  obtain n where n: "last sr1 = PInt n"
    using is_int_last [OF ne1 ints1] by blast
  have sess1: "session_state s1 = session_state s"
    using s1(2) by (metis state.select_convs(2) state.surjective state.update_convs(1))
  have k1: "map_of (counts s1) ''total_script_runs'' = Some (PInt r)"
       "map_of (counts s1) ''total_pageviews'' = Some (PInt p)"
       "map_of (counts s1) ''total_time_seconds'' = Some (PInt i)"
    using s1(4) p r t by simp_all
  have t1: "session_state s1 ''last_time'' = Some (SDatetime t0)"
    using t0 sess1 by simp
  obtain s' where s': "run (count_run clk) s1 = Raised OverflowError s'"
      "map_of (counts s') ''total_pageviews'' = Some (PInt p)"
      "map_of (counts s') ''total_script_runs'' = Some (PInt (r + 1))"
      "session_state s' = session_state s1"
    using count_run_overflow [OF s1(3) ne1 n k1(1) k1(2) k1(3) t(2) t1, of clk] by blast
  have "track_user clk s = Raised OverflowError s'"
    using s1(1) s'(1) by (simp add: track_user_def)
  with s'(2-4) sess1 show ?thesis by simp
qed

lemma start_tracking_track_raises:
  assumes "load_step lfj s = Returned s1"
    and "init_session clk0 s1 = Returned s3"
    and "track_user clk s3 = Raised e s4"
  shows "start_tracking h clk0 clk None coll lfj s = Raised e s4"
proof -
  have "firestore_step h None coll s = Returned s"
    by (simp add: firestore_step_def py_if_def firestore_due_def)
  with assms show ?thesis
    by (simp add: start_tracking_def)
qed

lemma counts_fresh:
  "counts (module_load noon fresh_process) = reset_counts noon [(''loaded_from_firestore'', PBool False)]"
  by (simp add: module_load_def fresh_process_def)

lemma session_fresh: "session_state (module_load noon fresh_process) = Map.empty"
  by (simp add: module_load_def fresh_process_def)

lemma in_keys: "map_of c k = Some v \<Longrightarrow> k \<in> fst ` set c"
  by (force dest: map_of_SomeD)

lemma load_step_object:
  assumes "files s path = Some (Json_doc (PDict al))"
  shows "\<exists>s1. load_step (Some path) s = Returned s1 \<and> session_state s1 = session_state s
     \<and> (\<forall>k. map_of (counts s1) k =
           (if k \<in> fst ` set (counts s)
            then (case map_of al (KStr k) of Some v \<Rightarrow> Some v | None \<Rightarrow> map_of (counts s) k)
            else None))"
proof -
  obtain c' where c': "merge_snapshot (counts s) (PDict al) = Inr c'"
      "\<forall>k. map_of c' k =
           (if k \<in> fst ` set (counts s)
            then (case map_of al (KStr k) of Some v \<Rightarrow> Some v | None \<Rightarrow> map_of (counts s) k)
            else None)"
    using merge_object [of "counts s" al] by blast
  have "load_step (Some path) s = Returned (s\<lparr>counts := c'\<rparr>)"
    by (simp add: load_step_def load_counts_def assms c'(1))
  with c'(2) show ?thesis by simp
qed

lemma reset_counts_values:
  "map_of (reset_counts clk c) ''total_pageviews'' = Some (PInt 0)"
  "map_of (reset_counts clk c) ''total_script_runs'' = Some (PInt 0)"
  "map_of (reset_counts clk c) ''total_time_seconds'' = Some (PInt 0)"
  "map_of (reset_counts clk c) ''per_day'' =
     Some (PDict [(KStr ''days'', PList [PStr (yesterday clk)]),
                  (KStr ''pageviews'', PList [PInt 0]),
                  (KStr ''script_runs'', PList [PInt 0])])"
  by (simp_all add: reset_counts_def map_of_dict_update)

lemma empty_days_loaded:
  "\<exists>s1. load_step (Some ''counts.json'') empty_days_snapshot = Returned s1
     \<and> session_state s1 = Map.empty
     \<and> map_of (counts s1) ''total_script_runs'' = Some (PInt 0)
     \<and> map_of (counts s1) ''per_day'' =
          Some (PDict [(KStr ''days'', PList []), (KStr ''pageviews'', PList []),
                       (KStr ''script_runs'', PList [])])"
proof -
  let ?al = "[(KStr ''per_day'', PDict [(KStr ''days'', PList []), (KStr ''pageviews'', PList []),
                       (KStr ''script_runs'', PList [])])]"
  have c: "counts empty_days_snapshot = reset_counts noon [(''loaded_from_firestore'', PBool False)]"
    by (simp add: empty_days_snapshot_def counts_fresh)
  have f: "files empty_days_snapshot ''counts.json'' = Some (Json_doc (PDict ?al))"
    by (simp add: empty_days_snapshot_def)
  have se: "session_state empty_days_snapshot = Map.empty"
    by (simp add: empty_days_snapshot_def session_fresh)
  have k: "''per_day'' \<in> fst ` set (counts empty_days_snapshot)"
      "''total_script_runs'' \<in> fst ` set (counts empty_days_snapshot)"
    unfolding c
    by (rule in_keys [OF reset_counts_values(4)], rule in_keys [OF reset_counts_values(2)])
  obtain s1 where s1: "load_step (Some ''counts.json'') empty_days_snapshot = Returned s1"
      "session_state s1 = session_state empty_days_snapshot"
      "\<forall>k. map_of (counts s1) k =
           (if k \<in> fst ` set (counts empty_days_snapshot)
            then (case map_of ?al (KStr k) of Some v \<Rightarrow> Some v
                  | None \<Rightarrow> map_of (counts empty_days_snapshot) k)
            else None)"
    using load_step_object [OF f] by blast
  have "map_of (counts s1) ''total_script_runs'' = Some (PInt 0)"
    using s1(3) k(2) by (simp add: c reset_counts_values)
  moreover have "map_of (counts s1) ''per_day'' = Some (PDict [(KStr ''days'', PList []),
       (KStr ''pageviews'', PList []), (KStr ''script_runs'', PList [])])"
    using s1(3) k(1) by simp
  ultimately show ?thesis
    using s1(1,2) se by simp
qed

lemma huge_time_loaded:
  "\<exists>s1. load_step (Some ''counts.json'') huge_time_snapshot = Returned s1
     \<and> session_state s1 = Map.empty
     \<and> map_of (counts s1) ''total_script_runs'' = Some (PInt 0)
     \<and> map_of (counts s1) ''total_pageviews'' = Some (PInt 0)
     \<and> map_of (counts s1) ''total_time_seconds'' = Some (PInt (2 ^ 1024))
     \<and> per_day_lists (counts s1) = Some ([PStr ''2024-01-01''], [PInt 0], [PInt 0])"
proof -
  let ?al = "[(KStr ''total_time_seconds'', PInt (2 ^ 1024))]"
  have c: "counts huge_time_snapshot = reset_counts noon [(''loaded_from_firestore'', PBool False)]"
    by (simp add: huge_time_snapshot_def counts_fresh)
  have f: "files huge_time_snapshot ''counts.json'' = Some (Json_doc (PDict ?al))"
    by (simp add: huge_time_snapshot_def)
  have se: "session_state huge_time_snapshot = Map.empty"
    by (simp add: huge_time_snapshot_def session_fresh)
  have k: "''per_day'' \<in> fst ` set (counts huge_time_snapshot)"
      "''total_script_runs'' \<in> fst ` set (counts huge_time_snapshot)"
      "''total_pageviews'' \<in> fst ` set (counts huge_time_snapshot)"
      "''total_time_seconds'' \<in> fst ` set (counts huge_time_snapshot)"
    unfolding c
    by (rule in_keys [OF reset_counts_values(4)], rule in_keys [OF reset_counts_values(2)],
        rule in_keys [OF reset_counts_values(1)], rule in_keys [OF reset_counts_values(3)])
  obtain s1 where s1: "load_step (Some ''counts.json'') huge_time_snapshot = Returned s1"
      "session_state s1 = session_state huge_time_snapshot"
      "\<forall>k. map_of (counts s1) k =
           (if k \<in> fst ` set (counts huge_time_snapshot)
            then (case map_of ?al (KStr k) of Some v \<Rightarrow> Some v
                  | None \<Rightarrow> map_of (counts huge_time_snapshot) k)
            else None)"
    using load_step_object [OF f] by blast
  have "map_of (counts s1) ''total_script_runs'' = Some (PInt 0)"
      "map_of (counts s1) ''total_pageviews'' = Some (PInt 0)"
    using s1(3) k by (simp_all add: c reset_counts_values)
  moreover have "map_of (counts s1) ''total_time_seconds'' = Some (PInt (2 ^ 1024))"
    using s1(3) k(4) by simp
  moreover have "map_of (counts s1) ''per_day'' =
     Some (PDict [(KStr ''days'', PList [PStr ''2024-01-01'']),
                  (KStr ''pageviews'', PList [PInt 0]),
                  (KStr ''script_runs'', PList [PInt 0])])"
    using s1(3) k(1) by (simp add: c reset_counts_values noon_def)
  then have "per_day_lists (counts s1) = Some ([PStr ''2024-01-01''], [PInt 0], [PInt 0])"
    by (simp add: per_day_lists_def)
  ultimately show ?thesis
    using s1(1,2) se by simp
qed

text \<open>
  Without the condition on the store the counters are not raised. After a snapshot with empty
  \<^verbatim>\<open>per_day\<close> sequences is merged, line 91 raises \<^verbatim>\<open>IndexError\<close> in \<^verbatim>\<open>_track_user\<close>, in the
  call that loads it and in the next one that loads nothing, and \<^verbatim>\<open>total_script_runs\<close>
  stays 0. After a snapshot whose \<^verbatim>\<open>total_time_seconds\<close> is the integer \<open>2 ^ 1024\<close> is merged,
  line 99 raises \<^verbatim>\<open>OverflowError\<close> before the pageview of the new session is counted:
  \<^verbatim>\<open>total_pageviews\<close> stays 0 and \<^verbatim>\<open>user_tracked\<close> stays false.
\<close>

theorem malformed_store_not_counted:
  "session_state empty_days_snapshot ''user_tracked'' = None
   \<and> map_of (counts empty_days_snapshot) ''total_script_runs'' = Some (PInt 0)
   \<and> raised (start_tracking quiet_host noon noon None ''counts'' (Some ''counts.json'')
        empty_days_snapshot) = Some IndexError
   \<and> map_of (counts (final (start_tracking quiet_host noon noon None ''counts'' (Some ''counts.json'')
        empty_days_snapshot))) ''total_script_runs'' = Some (PInt 0)
   \<and> raised (start_tracking quiet_host evening evening None ''counts'' None
        (final (start_tracking quiet_host noon noon None ''counts'' (Some ''counts.json'')
           empty_days_snapshot))) = Some IndexError
   \<and> map_of (counts (final (start_tracking quiet_host evening evening None ''counts'' None
        (final (start_tracking quiet_host noon noon None ''counts'' (Some ''counts.json'')
           empty_days_snapshot))))) ''total_script_runs'' = Some (PInt 0)
   \<and> session_state huge_time_snapshot ''user_tracked'' = None
   \<and> map_of (counts huge_time_snapshot) ''total_pageviews'' = Some (PInt 0)
   \<and> raised (start_tracking quiet_host noon noon None ''counts'' (Some ''counts.json'')
        huge_time_snapshot) = Some OverflowError
   \<and> map_of (counts (final (start_tracking quiet_host noon noon None ''counts'' (Some ''counts.json'')
        huge_time_snapshot))) ''total_pageviews'' = Some (PInt 0)
   \<and> session_state (final (start_tracking quiet_host noon noon None ''counts'' (Some ''counts.json'')
        huge_time_snapshot)) ''user_tracked'' = Some (SVal (PBool False))"
proof -
  let ?pd = "[(KStr ''days'', PList []), (KStr ''pageviews'', PList []),
              (KStr ''script_runs'', PList [])]"
  have i: "session_state empty_days_snapshot ''user_tracked'' = None"
      "map_of (counts empty_days_snapshot) ''total_script_runs'' = Some (PInt 0)"
    by (simp_all add: empty_days_snapshot_def session_fresh counts_fresh reset_counts_values)
  obtain s1 where s1: "load_step (Some ''counts.json'') empty_days_snapshot = Returned s1"
      "session_state s1 = Map.empty"
      "map_of (counts s1) ''total_script_runs'' = Some (PInt 0)"
      "map_of (counts s1) ''per_day'' = Some (PDict ?pd)"
    using empty_days_loaded by blast
  have ok1: "session_keys_ok (session_state s1)"
    by (simp add: s1(2) session_keys_ok_def)
  obtain s3 t3 where s3: "init_session noon s1 = Returned s3" "counts s3 = counts s1"
      "session_state s3 ''user_tracked'' =
          Some (SVal (PBool (session_state s1 ''user_tracked'' = Some (SVal (PBool True)))))"
      "session_state s3 ''last_time'' = Some (SDatetime t3)"
    using init_session_keys [OF ok1, of noon] by blast
  have "track_user noon s3 = Raised IndexError s3"
    by (rule track_user_empty_days [where pd = ?pd]) (simp_all add: s3(2) s1(4))
  then have a: "start_tracking quiet_host noon noon None ''counts'' (Some ''counts.json'')
      empty_days_snapshot = Raised IndexError s3"
    by (rule start_tracking_track_raises [OF s1(1) s3(1)])
  have ok3: "session_keys_ok (session_state s3)"
    by (simp add: s3(3,4) session_keys_ok_def)
  obtain s5 t5 where s5: "init_session evening s3 = Returned s5" "counts s5 = counts s3"
    using init_session_keys [OF ok3, of evening] by blast
  have "track_user evening s5 = Raised IndexError s5"
    by (rule track_user_empty_days [where pd = ?pd]) (simp_all add: s5(2) s3(2) s1(4))
  then have b: "start_tracking quiet_host evening evening None ''counts'' None s3
      = Raised IndexError s5"
    by (rule start_tracking_track_raises [OF load_step_None s5(1)])
  have r: "map_of (counts s3) ''total_script_runs'' = Some (PInt 0)"
      "map_of (counts s5) ''total_script_runs'' = Some (PInt 0)"
    by (simp_all add: s5(2) s3(2) s1(3))
  have j: "session_state huge_time_snapshot ''user_tracked'' = None"
      "map_of (counts huge_time_snapshot) ''total_pageviews'' = Some (PInt 0)"
    by (simp_all add: huge_time_snapshot_def session_fresh counts_fresh reset_counts_values)
  obtain h1 where h1: "load_step (Some ''counts.json'') huge_time_snapshot = Returned h1"
      "session_state h1 = Map.empty"
      "map_of (counts h1) ''total_script_runs'' = Some (PInt 0)"
      "map_of (counts h1) ''total_pageviews'' = Some (PInt 0)"
      "map_of (counts h1) ''total_time_seconds'' = Some (PInt (2 ^ 1024))"
      "per_day_lists (counts h1) = Some ([PStr ''2024-01-01''], [PInt 0], [PInt 0])"
    using huge_time_loaded by blast
  have okh: "session_keys_ok (session_state h1)"
    by (simp add: h1(2) session_keys_ok_def)
  obtain h3 u3 where h3: "init_session noon h1 = Returned h3" "counts h3 = counts h1"
      "session_state h3 ''user_tracked'' =
          Some (SVal (PBool (session_state h1 ''user_tracked'' = Some (SVal (PBool True)))))"
      "session_state h3 ''last_time'' = Some (SDatetime u3)"
    using init_session_keys [OF okh, of noon] by blast
  have f: "session_state h3 ''user_tracked'' = Some (SVal (PBool False))"
    using h3(3) by (simp add: h1(2))
  obtain h4 where h4: "track_user noon h3 = Raised OverflowError h4"
      "map_of (counts h4) ''total_pageviews'' = Some (PInt 0)"
      "session_state h4 = session_state h3"
    using track_user_overflow [of h3 "[PStr ''2024-01-01'']" "[PInt 0]" "[PInt 0]" 0 0 "2 ^ 1024" u3 noon]
      h1(3-6) h3(2,4) not_fits_float by auto
  have c: "start_tracking quiet_host noon noon None ''counts'' (Some ''counts.json'')
      huge_time_snapshot = Raised OverflowError h4"
    by (rule start_tracking_track_raises [OF h1(1) h3(1) h4(1)])
  show ?thesis
    unfolding a b c final.simps raised.simps
    using i r j h4(2,3) f by simp
qed

lemma sorted_wrt_last:
  "sorted_wrt P xs \<Longrightarrow> x \<in> set xs \<Longrightarrow> x = last xs \<or> P x (last xs)"
  by (induction xs) (auto split: if_splits)

lemma present_iff_last:
  assumes "strictly_increasing ds" "ds \<noteq> []" "\<not> py_less (PStr t) (last ds)"
  shows "(PStr t \<in> set ds) = (last ds = PStr t)"
proof
  assume "PStr t \<in> set ds"
  with assms(1) have "PStr t = last ds \<or> py_less (PStr t) (last ds)"
    by (auto simp: strictly_increasing_def dest: sorted_wrt_last)
  with assms(3) show "last ds = PStr t" by auto
next
  assume "last ds = PStr t"
  with assms(2) show "PStr t \<in> set ds" by (metis last_in_set)
qed

text \<open>
  C2 (as amended). For every store whose \<^verbatim>\<open>per_day.days\<close> is not empty, the new-day block
  of \<^verbatim>\<open>_track_user\<close> returns and the counters of the call are applied after it. It appends
  today's date string and two zero counters to the three sequences exactly when the last
  entry of \<^verbatim>\<open>days\<close> differs from today, and so whenever today is absent from \<^verbatim>\<open>days\<close>;
  nothing is appended when the last entry is today. When \<^verbatim>\<open>days\<close> is strictly increasing
  and today is not earlier than its last entry, today is present exactly when it is the last
  entry.
\<close>

theorem new_day_appends:
  assumes "per_day_lists (counts s) = Some (ds, pv, sr)" and "ds \<noteq> []"
  shows "\<exists>s'. new_day clk s = Returned s'
     \<and> track_user clk s = run (count_run clk) s'
     \<and> per_day_lists (counts s') =
          Some (if last ds = PStr (today clk) then (ds, pv, sr)
                else (ds @ [PStr (today clk)], pv @ [PInt 0], sr @ [PInt 0]))
     \<and> (PStr (today clk) \<notin> set ds \<longrightarrow> last ds \<noteq> PStr (today clk))
     \<and> (strictly_increasing ds \<and> \<not> py_less (PStr (today clk)) (last ds) \<longrightarrow>
          (PStr (today clk) \<in> set ds) = (last ds = PStr (today clk)))"
proof -
  obtain s' where s': "new_day clk s = Returned s'"
      "per_day_lists (counts s') =
          Some (if last ds = PStr (today clk) then (ds, pv, sr)
                else (ds @ [PStr (today clk)], pv @ [PInt 0], sr @ [PInt 0]))"
    using new_day_effect [OF assms, of clk] by blast
  have "track_user clk s = run (count_run clk) s'"
    using s'(1) by (simp add: track_user_def)
  moreover have "PStr (today clk) \<notin> set ds \<longrightarrow> last ds \<noteq> PStr (today clk)"
    using assms(2) by (metis last_in_set)
  moreover have "strictly_increasing ds \<and> \<not> py_less (PStr (today clk)) (last ds) \<longrightarrow>
          (PStr (today clk) \<in> set ds) = (last ds = PStr (today clk))"
    using present_iff_last [OF _ assms(2)] by blast
  ultimately show ?thesis
    using s' by blast
qed

lemma lists_fresh:
  "per_day_lists (counts (module_load noon fresh_process)) = Some ([PStr ''2024-01-01''], [PInt 0], [PInt 0])"
  by (simp add: module_load_def fresh_process_def reset_counts_def map_of_dict_update
      per_day_lists_def noon_def)

theorem new_day_appends_witness:
  "per_day_lists (counts (module_load noon fresh_process)) = Some ([PStr ''2024-01-01''], [PInt 0], [PInt 0])
   \<and> PStr (today noon) \<notin> set [PStr ''2024-01-01'']
   \<and> returns (new_day noon (module_load noon fresh_process))
   \<and> per_day_lists (counts (final (new_day noon (module_load noon fresh_process))))
        = Some ([PStr ''2024-01-01'', PStr ''2024-01-02''], [PInt 0, PInt 0], [PInt 0, PInt 0])"
proof -
  have ne: "[PStr ''2024-01-01''] \<noteq> []" by simp
  obtain s' where s': "new_day noon (module_load noon fresh_process) = Returned s'"
     "per_day_lists (counts s') =
          Some (if last [PStr ''2024-01-01''] = PStr (today noon)
                then ([PStr ''2024-01-01''], [PInt 0], [PInt 0])
                else ([PStr ''2024-01-01''] @ [PStr (today noon)], [PInt 0] @ [PInt 0], [PInt 0] @ [PInt 0]))"
    using new_day_appends [OF lists_fresh ne, of noon] by blast
  have "per_day_lists (counts s') =
      Some ([PStr ''2024-01-01'', PStr ''2024-01-02''], [PInt 0, PInt 0], [PInt 0, PInt 0])"
    using s'(2) by (simp add: noon_def)
  then show ?thesis
    using s'(1) lists_fresh by (simp add: noon_def)
qed

text \<open>
  C2 as stated fails: with days 2024-01-01 and 2024-01-02 recorded and a clock that reads
  2024-01-01, today is present in \<^verbatim>\<open>days\<close> and an entry is appended all the same.
\<close>

theorem present_day_appended:
  "per_day_lists (counts two_days) =
     Some ([PStr ''2024-01-01'', PStr ''2024-01-02''], [PInt 1, PInt 0], [PInt 1, PInt 1])
   \<and> PStr (today clock_set_back) \<in> set [PStr ''2024-01-01'', PStr ''2024-01-02'']
   \<and> returns (track_user clock_set_back two_days)
   \<and> per_day_lists (counts (final (track_user clock_set_back two_days))) =
       Some ([PStr ''2024-01-01'', PStr ''2024-01-02'', PStr ''2024-01-01''],
             [PInt 1, PInt 0, PInt 0], [PInt 1, PInt 1, PInt 1])"
  by (simp add: two_days_def clock_set_back_def fresh_process_def per_day_lists_def
      track_user_def new_day_def count_run_def py_if_def day_changed_def and_then_def
      counts_get_def on_counts_def per_day_at_def counts_at_def add_elapsed_def
      set_session_def not_user_tracked_def)

lemma run_final_preserves:
  assumes "\<And>f s. f \<in> set fs \<Longrightarrow> Q s \<Longrightarrow> Q (final (f s))" and "Q s"
  shows "Q (final (run fs s))"
  using assms
proof (induction fs arbitrary: s)
  case Nil
  then show ?case by simp
next
  case (Cons f fs)
  have q: "Q (final (f s))" using Cons.prems by simp
  show ?case
  proof (cases "f s")
    case (Returned s1)
    with q have "Q s1" by simp
    then have "Q (final (run fs s1))" using Cons.prems(1) by (intro Cons.IH) auto
    with Returned show ?thesis by simp
  next
    case (Raised e s1)
    with q show ?thesis by simp
  qed
qed

lemma py_if_final_preserves:
  assumes "\<And>f s. f \<in> set body \<Longrightarrow> Q s \<Longrightarrow> Q (final (f s))" and "Q s"
  shows "Q (final (py_if c body s))"
proof (cases "c s")
  case (Inl e)
  with assms(2) show ?thesis by (simp add: py_if_def)
next
  case (Inr b)
  have "Q (final (run body s))"
  proof (rule run_final_preserves [where Q = Q])
    show "Q s" by (rule assms(2))
  next
    fix f s
    assume "f \<in> set body" "Q s"
    then show "Q (final (f s))" by (rule assms(1))
  qed
  with Inr assms(2) show ?thesis
    by (simp add: py_if_def)
qed

lemma length_replace_last: "xs \<noteq> [] \<Longrightarrow> length (butlast xs @ [x]) = length xs"
  by (cases xs rule: rev_cases) auto

lemma on_counts_final:
  assumes "Q s" and "\<And>c'. f (counts s) = Inr c' \<Longrightarrow> Q (s\<lparr>counts := c'\<rparr>)"
  shows "Q (final (on_counts f s))"
  using assms by (cases "f (counts s)") (auto simp: on_counts_def)

lemma per_day_inv_lists:
  "per_day_inv c =
     (case per_day_lists c of
        None \<Rightarrow> False
      | Some (ds, pv, sr) \<Rightarrow> length ds = length pv \<and> length pv = length sr \<and> strictly_increasing ds)"
  by (simp add: per_day_inv_def per_day_lists_def split: option.splits)

lemma per_day_inv_update_other:
  "k \<noteq> ''per_day'' \<Longrightarrow> per_day_inv (AList.update k v c) = per_day_inv c"
  by (simp add: per_day_inv_def update_conv')

lemma per_day_inv_counts_at_other:
  "k \<noteq> ''per_day'' \<Longrightarrow> counts_at k f c = Inr c' \<Longrightarrow> per_day_inv c' = per_day_inv c"
  by (auto simp: counts_at_def per_day_inv_update_other split: option.splits sum.splits)

lemma per_day_inv_at_last:
  assumes "per_day_inv c" and "field = ''pageviews'' \<or> field = ''script_runs''"
    and "per_day_at field (at_last g) c = Inr c'"
  shows "per_day_inv c'"
proof -
  from assms(1) obtain ds pv sr where l: "per_day_lists c = Some (ds, pv, sr)"
    and len: "length ds = length pv" "length pv = length sr" and inc: "strictly_increasing ds"
    by (auto simp: per_day_inv_lists split: option.splits)
  from l obtain pd where pd: "map_of c ''per_day'' = Some (PDict pd)"
    "map_of pd (KStr ''days'') = Some (PList ds)"
    "map_of pd (KStr ''pageviews'') = Some (PList pv)"
    "map_of pd (KStr ''script_runs'') = Some (PList sr)"
    by (rule per_day_listsD)
  from assms(2) show ?thesis
  proof
    assume f: "field = ''pageviews''"
    with assms(3) pd obtain x where "pv \<noteq> []"
      "c' = AList.update ''per_day'' (PDict (AList.update (KStr ''pageviews'') (PList (butlast pv @ [x])) pd)) c"
      by (auto simp: per_day_at_def counts_at_def split: sum.splits if_splits)
    with pd len inc length_replace_last [of pv x] show ?thesis
      by (simp add: per_day_inv_def update_conv' del: length_append length_butlast)
  next
    assume f: "field = ''script_runs''"
    with assms(3) pd obtain x where "sr \<noteq> []"
      "c' = AList.update ''per_day'' (PDict (AList.update (KStr ''script_runs'') (PList (butlast sr @ [x])) pd)) c"
      by (auto simp: per_day_at_def counts_at_def split: sum.splits if_splits)
    with pd len inc length_replace_last [of sr x] show ?thesis
      by (simp add: per_day_inv_def update_conv' del: length_append length_butlast)
  qed
qed

lemma add_elapsed_inv:
  "per_day_inv (counts s) \<Longrightarrow> per_day_inv (counts (final (add_elapsed t s)))"
  by (auto simp: add_elapsed_def per_day_inv_update_other
      split: option.splits sval.splits sum.splits)

lemma count_run_inv:
  assumes "per_day_inv (counts s)"
  shows "per_day_inv (counts (final (run (count_run clk) s)))"
proof (rule run_final_preserves [where Q = "\<lambda>s. per_day_inv (counts s)"])
  show "per_day_inv (counts s)" by (rule assms)
next
  fix f and s :: state
  assume f: "f \<in> set (count_run clk)" and q: "per_day_inv (counts s)"
  have a: "per_day_inv (counts (final (on_counts (counts_at k (add_int 1)) s)))"
    if "k \<noteq> ''per_day''" "per_day_inv (counts s)" for k s
    using that by (intro on_counts_final [where Q = "\<lambda>s. per_day_inv (counts s)"])
      (auto simp: per_day_inv_counts_at_other)
  have b: "per_day_inv (counts (final (on_counts (per_day_at field (at_last (add_int 1))) s)))"
    if "field = ''pageviews'' \<or> field = ''script_runs''" "per_day_inv (counts s)" for field s
    using that by (intro on_counts_final [where Q = "\<lambda>s. per_day_inv (counts s)"])
      (auto intro: per_day_inv_at_last)
  have c: "per_day_inv (counts (final (set_session k v s)))" if "per_day_inv (counts s)" for k v s
    using that by (simp add: set_session_def)
  have d: "per_day_inv (counts (final (py_if not_user_tracked
        [set_session ''user_tracked'' (SVal (PBool True)),
         on_counts (counts_at ''total_pageviews'' (add_int 1)),
         on_counts (per_day_at ''pageviews'' (at_last (add_int 1)))] s)))"
    if "per_day_inv (counts s)" for s
    using that by (intro py_if_final_preserves [where Q = "\<lambda>s. per_day_inv (counts s)"])
      (auto simp: a b c)
  from f q show "per_day_inv (counts (final (f s)))"
    by (auto simp: count_run_def a b c d add_elapsed_inv)
qed

lemma py_less_trans: "py_less x y \<Longrightarrow> py_less y z \<Longrightarrow> py_less x z"
  by (cases x; cases y; cases z) auto

lemma new_day_inv:
  assumes "per_day_inv (counts s)" and "not_before_last (today clk) (counts s)"
  shows "per_day_inv (counts (final (new_day clk s)))"
proof -
  from assms(1) obtain ds pv sr where l: "per_day_lists (counts s) = Some (ds, pv, sr)"
    and len: "length ds = length pv" "length pv = length sr" and inc: "strictly_increasing ds"
    by (auto simp: per_day_inv_lists split: option.splits)
  show ?thesis
  proof (cases "ds = []")
    case True
    from l obtain pd where pd: "map_of (counts s) ''per_day'' = Some (PDict pd)"
      "map_of pd (KStr ''days'') = Some (PList ds)"
      by (rule per_day_listsD)
    with True have "new_day clk s = Raised IndexError s"
      by (simp add: new_day_def py_if_def day_changed_def and_then_def counts_get_def)
    with assms(1) show ?thesis by simp
  next
    case False
    obtain s' where s': "new_day clk s = Returned s'"
      "per_day_lists (counts s') =
          Some (if last ds = PStr (today clk) then (ds, pv, sr)
                else (ds @ [PStr (today clk)], pv @ [PInt 0], sr @ [PInt 0]))"
      using new_day_effect [OF l False, of clk] by blast
    have "strictly_increasing (ds @ [PStr (today clk)])" if ne: "last ds \<noteq> PStr (today clk)"
    proof -
      from inc False have "is_str (last ds)" by (simp add: strictly_increasing_def list_all_iff)
      then obtain d where d: "last ds = PStr d" by (cases "last ds") auto
      from assms(2) l False d have "\<not> today clk < d" by (simp add: not_before_last_def)
      with ne d have lt: "py_less (last ds) (PStr (today clk))" by auto
      have "py_less x (PStr (today clk))" if "x \<in> set ds" for x
      proof -
        from inc that have "x = last ds \<or> py_less x (last ds)"
          by (auto simp: strictly_increasing_def dest: sorted_wrt_last)
        with lt show ?thesis by (auto intro: py_less_trans)
      qed
      with inc show ?thesis
        by (simp add: strictly_increasing_def sorted_wrt_append)
    qed
    with s'(2) len inc have "per_day_inv (counts s')"
      by (auto simp: per_day_inv_lists)
    with s'(1) show ?thesis by simp
  qed
qed

lemma track_user_inv:
  assumes "per_day_inv (counts s)" and "not_before_last (today clk) (counts s)"
  shows "per_day_inv (counts (final (track_user clk s)))"
proof (cases "new_day clk s")
  case (Returned s1)
  with new_day_inv [OF assms] have "per_day_inv (counts s1)" by simp
  then have "per_day_inv (counts (final (run (count_run clk) s1)))" by (rule count_run_inv)
  with Returned show ?thesis by (simp add: track_user_def)
next
  case (Raised e s1)
  with new_day_inv [OF assms] show ?thesis by (simp add: track_user_def)
qed

lemma reset_counts_inv: "per_day_inv (reset_counts clk c)"
  by (simp add: per_day_inv_def reset_counts_def map_of_dict_update strictly_increasing_def)

lemma present_items_not_object:
  "\<forall>al. j \<noteq> PDict al \<Longrightarrow> present_items c j ks = Inr d \<Longrightarrow> d = []"
proof (induction c j ks arbitrary: d rule: present_items.induct)
  case (2 c j k ks)
  from "2.prems"(1) have "getitem_str j k = Inl TypeError" by (cases j) auto
  with 2 show ?case by (auto simp: and_then_def split: if_splits)
qed auto

lemma merge_snapshot_not_object:
  assumes "\<forall>al. j \<noteq> PDict al" and "merge_snapshot c j = Inr c'"
  shows "c' = c"
proof -
  from assms(2) obtain ks d where d: "present_items c j ks = Inr d" "c' = dict_update c (dict_of_pairs d)"
    by (auto simp: merge_snapshot_def and_then_def split: sum.splits)
  from assms(1) d(1) have "d = []" by (rule present_items_not_object)
  with d(2) show ?thesis
    by (simp add: dict_of_pairs_def dict_update_def)
qed

lemma load_step_inv:
  assumes "per_day_inv (counts s)" and "snapshot_per_day_ok (files s path)"
  shows "per_day_inv (counts (final (load_step (Some path) s)))"
proof (cases "load_counts path s")
  case (Inl e)
  with assms(1) show ?thesis by (simp add: load_step_caught)
next
  case (Inr c')
  then obtain j where j: "files s path = Some (Json_doc j)" "merge_snapshot (counts s) j = Inr c'"
    by (auto simp: load_counts_def split: option.splits file_content.splits)
  have "per_day_inv c'"
  proof (cases "\<exists>al. j = PDict al")
    case False
    with j(2) have "c' = counts s" by (intro merge_snapshot_not_object) auto
    with assms(1) show ?thesis by simp
  next
    case True
    then obtain al where al: "j = PDict al" by blast
    from assms(1) obtain v0 where v0: "map_of (counts s) ''per_day'' = Some v0" "per_day_ok v0"
      by (auto simp: per_day_inv_def split: option.splits)
    then have k: "''per_day'' \<in> fst ` set (counts s)"
      by (metis map_of_SomeD fst_conv image_eqI)
    obtain c'' where c'': "merge_snapshot (counts s) (PDict al) = Inr c''"
      "\<forall>k. map_of c'' k =
           (if k \<in> fst ` set (counts s)
            then (case map_of al (KStr k) of Some v \<Rightarrow> Some v | None \<Rightarrow> map_of (counts s) k)
            else None)"
      using merge_object [of "counts s" al] by blast
    with j(2) al have eq: "c'' = c'" by simp
    show ?thesis
    proof (cases "map_of al (KStr ''per_day'')")
      case None
      with c''(2) eq v0 k show ?thesis by (simp add: per_day_inv_def)
    next
      case (Some v)
      with assms(2) j(1) al have "per_day_ok v" by (simp add: snapshot_per_day_ok_def)
      moreover from Some c''(2) k eq have "map_of c' ''per_day'' = Some v" by simp
      ultimately show ?thesis by (simp add: per_day_inv_def)
    qed
  qed
  with Inr show ?thesis by (simp add: load_step_def)
qed


text \<open>
  C7 (as amended). \<^verbatim>\<open>reset_counts\<close> establishes the invariant of \<^verbatim>\<open>per_day\<close> (three
  sequences of equal length, \<^verbatim>\<open>days\<close> strictly increasing). \<^verbatim>\<open>_track_user\<close> preserves it,
  whether it returns or raises, when today is not earlier than the last recorded day. The
  load step of \<^verbatim>\<open>start_tracking\<close> preserves it when the snapshot has no \<^verbatim>\<open>per_day\<close> key or
  one whose value satisfies the invariant.
\<close>

theorem per_day_invariant:
  "per_day_inv (reset_counts clk c)
   \<and> (per_day_inv (counts s) \<and> not_before_last (today clk) (counts s) \<longrightarrow>
        per_day_inv (counts (final (track_user clk s))))
   \<and> (per_day_inv (counts s) \<and> snapshot_per_day_ok (files s path) \<longrightarrow>
        per_day_inv (counts (final (load_step (Some path) s))))"
  using reset_counts_inv track_user_inv load_step_inv by blast

theorem per_day_invariant_witness:
  "per_day_inv (counts tidy_snapshot)
   \<and> not_before_last (today noon) (counts tidy_snapshot)
   \<and> per_day_inv (counts (final (track_user noon tidy_snapshot)))
   \<and> snapshot_per_day_ok (files tidy_snapshot ''counts.json'')
   \<and> per_day_inv (counts (final (load_step (Some ''counts.json'') tidy_snapshot)))"
proof -
  have c: "counts tidy_snapshot = reset_counts noon [(''loaded_from_firestore'', PBool False)]"
    by (simp add: tidy_snapshot_def counts_fresh)
  have i: "per_day_inv (counts tidy_snapshot)"
    unfolding c by (simp add: per_day_inv_def reset_counts_def map_of_dict_update strictly_increasing_def)
  have n: "not_before_last (today noon) (counts tidy_snapshot)"
    unfolding c by (simp add: not_before_last_def per_day_lists_def reset_counts_def
        map_of_dict_update noon_def)
  have f: "snapshot_per_day_ok (files tidy_snapshot ''counts.json'')"
    by (simp add: tidy_snapshot_def snapshot_per_day_ok_def strictly_increasing_def)
  show ?thesis
    using per_day_invariant [of noon "[]" tidy_snapshot "''counts.json''"] i n f by blast
qed

text \<open>
  C7 as stated fails twice: \<^verbatim>\<open>_track_user\<close> appends an earlier day when the clock reads a
  day before the last recorded one, and the merge takes the snapshot's \<^verbatim>\<open>per_day\<close> as it
  is, here out of order and of unequal lengths.
\<close>

theorem per_day_invariant_broken:
  "per_day_inv (counts two_days)
   \<and> \<not> per_day_inv (counts (final (track_user clock_set_back two_days)))
   \<and> per_day_inv (counts ragged_snapshot)
   \<and> \<not> per_day_inv (counts (final (load_step (Some ''counts.json'') ragged_snapshot)))"
proof -
  have a: "per_day_inv (counts two_days)"
    by (simp add: two_days_def fresh_process_def per_day_inv_def strictly_increasing_def)
  have l: "per_day_lists (counts (final (track_user clock_set_back two_days))) =
       Some ([PStr ''2024-01-01'', PStr ''2024-01-02'', PStr ''2024-01-01''],
             [PInt 1, PInt 0, PInt 0], [PInt 1, PInt 1, PInt 1])"
    by (simp add: two_days_def clock_set_back_def fresh_process_def per_day_lists_def
      track_user_def new_day_def count_run_def py_if_def day_changed_def and_then_def
      counts_get_def on_counts_def per_day_at_def counts_at_def add_elapsed_def
      set_session_def not_user_tracked_def)
  have b: "\<not> per_day_inv (counts (final (track_user clock_set_back two_days)))"
    by (simp add: per_day_inv_lists l strictly_increasing_def)
  have c: "counts ragged_snapshot = reset_counts noon [(''loaded_from_firestore'', PBool False)]"
    by (simp add: ragged_snapshot_def counts_fresh)
  have d: "per_day_inv (counts ragged_snapshot)"
    unfolding c by (rule reset_counts_inv)
  have e: "map_of (counts (final (load_step (Some ''counts.json'') ragged_snapshot))) ''per_day'' =
      Some (PDict [(KStr ''days'', PList [PStr ''2024-01-02'', PStr ''2024-01-01'']),
                   (KStr ''pageviews'', PList [PInt 4]),
                   (KStr ''script_runs'', PList [PInt 9, PInt 2])])"
    by (simp add: load_step_def load_counts_def ragged_snapshot_def counts_fresh merge_snapshot_def
        and_then_def reset_counts_def keys_dict_update map_of_dict_update dict_of_pairs_def
        dict_update_def update_conv')
  have f: "\<not> per_day_inv (counts (final (load_step (Some ''counts.json'') ragged_snapshot)))"
    by (simp add: per_day_inv_def e)
  show ?thesis using a b d f by blast
qed


lemma frame_refl: "frame K s s"
  by (simp add: frame_def)

lemma frame_trans: "frame K a b \<Longrightarrow> frame K b c \<Longrightarrow> frame K a c"
  by (simp add: frame_def)

lemma frame_mono: "frame K a b \<Longrightarrow> K \<subseteq> K' \<Longrightarrow> frame K' a b"
  by (auto simp: frame_def)

lemma run_frame:
  assumes "\<And>f s. f \<in> set fs \<Longrightarrow> frame K s (final (f s))"
  shows "frame K s (final (run fs s))"
proof (rule run_final_preserves [where Q = "frame K s"])
  show "frame K s s" by (rule frame_refl)
next
  fix f s'
  assume "f \<in> set fs" "frame K s s'"
  then show "frame K s (final (f s'))"
    using assms frame_trans by blast
qed

lemma py_if_frame:
  assumes "\<And>f s. f \<in> set body \<Longrightarrow> frame K s (final (f s))"
  shows "frame K s (final (py_if c body s))"
proof (rule py_if_final_preserves [where Q = "frame K s"])
  show "frame K s s" by (rule frame_refl)
next
  fix f s'
  assume "f \<in> set body" "frame K s s'"
  then show "frame K s (final (f s'))"
    using assms frame_trans by blast
qed

lemma on_counts_frame: "frame K s (final (on_counts f s))"
  by (cases "f (counts s)") (simp_all add: on_counts_def frame_def)

lemma call_host_frame: "frame K s (final (call_host f s))"
  by (cases "f (counts s)") (simp_all add: call_host_def frame_def)

lemma add_elapsed_frame: "frame K s (final (add_elapsed t s))"
  by (auto simp: add_elapsed_def frame_def split: option.splits sval.splits sum.splits)

lemma set_session_frame: "k \<in> K \<Longrightarrow> frame K s (final (set_session k v s))"
  by (auto simp: set_session_def frame_def)

lemma load_step_frame: "frame K s (final (load_step lfj s))"
  by (auto simp: load_step_def frame_def split: option.splits sum.splits py_error.splits)

lemma save_step_frame: "frame K s (final (save_step sj s))"
  by (auto simp: save_step_def frame_def split: option.splits)

lemma st_write_frame: "frame K s (final (st_write txt s))"
  by (simp add: st_write_def frame_def)

lemma show_dashboard_frame: "frame K s (final (show_dashboard h pw s))"
  using call_host_frame [of K "s\<lparr>page := page s @ [Dashboard]\<rparr>" "show_results h pw"]
  by (simp add: show_dashboard_def frame_def)

lemma new_day_frame: "frame K s (final (new_day clk s))"
  unfolding new_day_def by (rule py_if_frame) (auto simp: on_counts_frame)

lemma track_user_frame:
  "frame {''last_time'', ''user_tracked''} s (final (track_user clk s))"
  unfolding track_user_def
proof (rule run_frame)
  fix f s
  assume "f \<in> set (new_day clk # count_run clk)"
  then consider "f = new_day clk" | "f \<in> set (count_run clk)" by auto
  then show "frame {''last_time'', ''user_tracked''} s (final (f s))"
  proof cases
    case 1
    then show ?thesis by (simp add: new_day_frame)
  next
    case 2
    have "frame {''last_time'', ''user_tracked''} s (final (py_if not_user_tracked
        [set_session ''user_tracked'' (SVal (PBool True)),
         on_counts (counts_at ''total_pageviews'' (add_int 1)),
         on_counts (per_day_at ''pageviews'' (at_last (add_int 1)))] s))"
      by (rule py_if_frame) (auto simp: on_counts_frame set_session_frame)
    with 2 show ?thesis
      by (auto simp: count_run_def on_counts_frame add_elapsed_frame set_session_frame)
  qed
qed

lemma init_session_frame:
  "frame {''user_tracked'', ''state_dict'', ''last_time''} s (final (init_session clk0 s))"
  unfolding init_session_def
proof (rule run_frame)
  fix f s
  assume "f \<in> set
     [py_if (\<lambda>s. Inr (session_state s ''user_tracked'' = None))
        [set_session ''user_tracked'' (SVal (PBool False))],
      py_if (\<lambda>s. Inr (session_state s ''state_dic'' = None))
        [set_session ''state_dict'' (SVal (PDict []))],
      py_if (\<lambda>s. Inr (session_state s ''last_time'' = None))
        [set_session ''last_time'' (SDatetime (now clk0))]]"
  then consider
      "f = py_if (\<lambda>s. Inr (session_state s ''user_tracked'' = None))
        [set_session ''user_tracked'' (SVal (PBool False))]"
    | "f = py_if (\<lambda>s. Inr (session_state s ''state_dic'' = None))
        [set_session ''state_dict'' (SVal (PDict []))]"
    | "f = py_if (\<lambda>s. Inr (session_state s ''last_time'' = None))
        [set_session ''last_time'' (SDatetime (now clk0))]"
    by auto
  then show "frame {''user_tracked'', ''state_dict'', ''last_time''} s (final (f s))"
    by cases (auto intro!: py_if_frame simp: set_session_frame)
qed

lemma firestore_step_frame: "frame K s (final (firestore_step h kf coll s))"
  unfolding firestore_step_def
  by (rule py_if_frame) (auto simp: call_host_frame on_counts_frame)

lemma firestore_save_step_frame: "frame K s (final (firestore_save_step h kf coll s))"
  unfolding firestore_save_step_def
  by (rule py_if_frame) (auto simp: call_host_frame)

lemma dashboard_step_frame: "frame K s (final (dashboard_step h pw s))"
  unfolding dashboard_step_def
  by (rule py_if_frame) (auto simp: st_write_frame show_dashboard_frame)


lemma run_Returned_Cons:
  "run (f # fs) s = Returned s' \<Longrightarrow> \<exists>s1. f s = Returned s1 \<and> run fs s1 = Returned s'"
  by (cases "f s") auto

lemma run_append:
  "run (fs @ gs) s = (case run fs s of Returned s' \<Rightarrow> run gs s' | Raised e s' \<Rightarrow> Raised e s')"
  by (induction fs arbitrary: s) (auto split: outcome.splits)

lemma before_patch_frame:
  "frame {''user_tracked'', ''state_dict'', ''last_time''} s
     (final (run [firestore_step h kf coll, load_step lfj, init_session clk0, track_user clk] s))"
proof (rule run_frame)
  fix f s
  assume "f \<in> set [firestore_step h kf coll, load_step lfj, init_session clk0, track_user clk]"
  then consider "f = firestore_step h kf coll" | "f = load_step lfj" | "f = init_session clk0"
    | "f = track_user clk" by auto
  then show "frame {''user_tracked'', ''state_dict'', ''last_time''} s (final (f s))"
  proof cases
    case 4
    then show ?thesis
      using track_user_frame [of s clk] by (auto elim: frame_mono)
  qed (simp_all add: firestore_step_frame load_step_frame init_session_frame)
qed

lemma start_tracking_split:
  "start_tracking h clk0 clk kf coll lfj s =
     (case run [firestore_step h kf coll, load_step lfj, init_session clk0, track_user clk] s of
        Returned s' \<Rightarrow> patch s' | Raised e s' \<Rightarrow> Raised e s')"
proof -
  have "start_tracking h clk0 clk kf coll lfj s =
      run ([firestore_step h kf coll, load_step lfj, init_session clk0, track_user clk] @ [patch]) s"
    by (simp add: start_tracking_def)
  also have "\<dots> = (case run [firestore_step h kf coll, load_step lfj, init_session clk0, track_user clk] s of
        Returned s' \<Rightarrow> run [patch] s' | Raised e s' \<Rightarrow> Raised e s')"
    by (rule run_append)
  finally show ?thesis
    by (simp add: patch_def split: outcome.splits)
qed

lemma start_tracking_final:
  "\<exists>s4. frame {''user_tracked'', ''state_dict'', ''last_time''} s s4
     \<and> (start_tracking h clk0 clk kf coll lfj s =
            Returned (s4\<lparr>st_attr := fold (\<lambda>(e, w) a. a(e := Wrapped w (orig s4 e))) patched (st_attr s4)\<rparr>)
          \<or> (\<exists>e. start_tracking h clk0 clk kf coll lfj s = Raised e s4))"
proof -
  define r where "r = run [firestore_step h kf coll, load_step lfj, init_session clk0, track_user clk] s"
  have f: "frame {''user_tracked'', ''state_dict'', ''last_time''} s (final r)"
    unfolding r_def by (rule before_patch_frame)
  have e: "start_tracking h clk0 clk kf coll lfj s =
      (case r of Returned s' \<Rightarrow> patch s' | Raised e s' \<Rightarrow> Raised e s')"
    unfolding r_def by (rule start_tracking_split)
  show ?thesis
  proof (cases r)
    case (Returned s4)
    with f e show ?thesis by (intro exI[of _ s4]) (simp add: patch_def)
  next
    case (Raised x s4)
    with f e show ?thesis by (intro exI[of _ s4]) simp
  qed
qed

lemma start_tracking_session:
  assumes "k \<notin> {''user_tracked'', ''state_dict'', ''last_time''}"
  shows "session_state (final (start_tracking h clk0 clk kf coll lfj s)) k = session_state s k"
proof -
  obtain s4 where s4: "frame {''user_tracked'', ''state_dict'', ''last_time''} s s4"
     "start_tracking h clk0 clk kf coll lfj s =
            Returned (s4\<lparr>st_attr := fold (\<lambda>(e, w) a. a(e := Wrapped w (orig s4 e))) patched (st_attr s4)\<rparr>)
          \<or> (\<exists>e. start_tracking h clk0 clk kf coll lfj s = Raised e s4)"
    using start_tracking_final by blast
  from s4(2) have "session_state (final (start_tracking h clk0 clk kf coll lfj s)) = session_state s4"
    by (elim disjE exE) simp_all
  with s4(1) assms show ?thesis by (simp add: frame_def)
qed

lemma start_tracking_orig:
  "orig (final (start_tracking h clk0 clk kf coll lfj s)) = orig s"
proof -
  obtain s4 where s4: "frame {''user_tracked'', ''state_dict'', ''last_time''} s s4"
     "start_tracking h clk0 clk kf coll lfj s =
            Returned (s4\<lparr>st_attr := fold (\<lambda>(e, w) a. a(e := Wrapped w (orig s4 e))) patched (st_attr s4)\<rparr>)
          \<or> (\<exists>e. start_tracking h clk0 clk kf coll lfj s = Raised e s4)"
    using start_tracking_final by blast
  from s4(2) have "orig (final (start_tracking h clk0 clk kf coll lfj s)) = orig s4"
    by (elim disjE exE) simp_all
  with s4(1) show ?thesis by (simp add: frame_def)
qed

lemma start_tracking_query:
  "query_params (final (start_tracking h clk0 clk kf coll lfj s)) = query_params s"
proof -
  obtain s4 where s4: "frame {''user_tracked'', ''state_dict'', ''last_time''} s s4"
     "start_tracking h clk0 clk kf coll lfj s =
            Returned (s4\<lparr>st_attr := fold (\<lambda>(e, w) a. a(e := Wrapped w (orig s4 e))) patched (st_attr s4)\<rparr>)
          \<or> (\<exists>e. start_tracking h clk0 clk kf coll lfj s = Raised e s4)"
    using start_tracking_final by blast
  from s4(2) have "query_params (final (start_tracking h clk0 clk kf coll lfj s)) = query_params s4"
    by (elim disjE exE) simp_all
  with s4(1) show ?thesis by (simp add: frame_def)
qed

lemma start_tracking_attr:
  assumes "start_tracking h clk0 clk kf coll lfj s = Returned s1"
  shows "st_attr s1 = fold (\<lambda>(e, w) a. a(e := Wrapped w (orig s e))) patched (st_attr s)"
proof -
  obtain s4 where s4: "frame {''user_tracked'', ''state_dict'', ''last_time''} s s4"
     "start_tracking h clk0 clk kf coll lfj s =
            Returned (s4\<lparr>st_attr := fold (\<lambda>(e, w) a. a(e := Wrapped w (orig s4 e))) patched (st_attr s4)\<rparr>)
          \<or> (\<exists>e. start_tracking h clk0 clk kf coll lfj s = Raised e s4)"
    using start_tracking_final by blast
  from s4(2) assms have "s1 = s4\<lparr>st_attr := fold (\<lambda>(e, w) a. a(e := Wrapped w (orig s4 e))) patched (st_attr s4)\<rparr>"
    by (elim disjE exE) simp_all
  with s4(1) show ?thesis by (simp add: frame_def)
qed

lemma stop_tracking_split:
  "stop_tracking h pw sj kf coll s =
     run [firestore_save_step h kf coll, save_step sj, dashboard_step h pw]
       (s\<lparr>st_attr := fold (\<lambda>e a. a(e := orig s e)) restored (st_attr s)\<rparr>)"
  by (simp add: stop_tracking_def unpatch_def)

lemma after_unpatch_frame:
  "frame {} s (final (run [firestore_save_step h kf coll, save_step sj, dashboard_step h pw] s))"
proof (rule run_frame)
  fix f s
  assume "f \<in> set [firestore_save_step h kf coll, save_step sj, dashboard_step h pw]"
  then show "frame {} s (final (f s))"
    by (auto simp: firestore_save_step_frame save_step_frame dashboard_step_frame)
qed

lemma stop_tracking_final:
  "frame {} (s\<lparr>st_attr := fold (\<lambda>e a. a(e := orig s e)) restored (st_attr s)\<rparr>)
     (final (stop_tracking h pw sj kf coll s))"
  unfolding stop_tracking_split by (rule after_unpatch_frame)

lemma stop_tracking_session:
  "session_state (final (stop_tracking h pw sj kf coll s)) = session_state s"
  using stop_tracking_final [of s h pw sj kf coll] by (auto simp: frame_def)

lemma stop_tracking_orig:
  "orig (final (stop_tracking h pw sj kf coll s)) = orig s"
  using stop_tracking_final [of s h pw sj kf coll] by (simp add: frame_def)

lemma stop_tracking_attr:
  "st_attr (final (stop_tracking h pw sj kf coll s)) =
     fold (\<lambda>e a. a(e := orig s e)) restored (st_attr s)"
  using stop_tracking_final [of s h pw sj kf coll] by (simp add: frame_def)

lemma init_session_state_dict:
  assumes "session_state s ''state_dic'' = None"
  shows "\<exists>s'. init_session clk0 s = Returned s'
     \<and> session_state s' ''state_dict'' = Some (SVal (PDict []))
     \<and> session_state s' ''state_dic'' = None"
  using assms by (simp add: init_session_def py_if_def set_session_def)

text \<open>
  C9. \<^verbatim>\<open>start_tracking\<close> tests the session key \<^verbatim>\<open>"state_dic"\<close> and assigns
  \<^verbatim>\<open>state_dict\<close>. The module never sets \<^verbatim>\<open>"state_dic"\<close>: when the key is absent it is still
  absent after \<^verbatim>\<open>start_tracking\<close> and after \<^verbatim>\<open>stop_tracking\<close>, however they end. So
  the guard holds on every call, the session keys are initialised with \<^verbatim>\<open>state_dict\<close> set
  to the empty dict whatever it held, and every call of \<^verbatim>\<open>start_tracking\<close> that returns
  leaves \<^verbatim>\<open>state_dict\<close> empty.
\<close>

theorem state_dict_reset:
  assumes "session_state s ''state_dic'' = None"
  shows "(\<exists>s'. init_session clk0 s = Returned s'
            \<and> session_state s' ''state_dict'' = Some (SVal (PDict []))
            \<and> session_state s' ''state_dic'' = None)
     \<and> (start_tracking h clk0 clk kf coll lfj s = Returned s1 \<longrightarrow>
            session_state s1 ''state_dict'' = Some (SVal (PDict [])))
     \<and> session_state (final (start_tracking h clk0 clk kf coll lfj s)) ''state_dic'' = None
     \<and> session_state (final (stop_tracking h pw sj kf coll s)) ''state_dic'' = None"
proof -
  have "session_state s1 ''state_dict'' = Some (SVal (PDict []))"
    if r: "start_tracking h clk0 clk kf coll lfj s = Returned s1"
  proof -
    from r obtain a where a: "firestore_step h kf coll s = Returned a"
        "run [load_step lfj, init_session clk0, track_user clk, patch] a = Returned s1"
      unfolding start_tracking_def by (blast dest: run_Returned_Cons)
    from a(2) obtain b where b: "load_step lfj a = Returned b"
        "run [init_session clk0, track_user clk, patch] b = Returned s1"
      by (blast dest: run_Returned_Cons)
    from b(2) obtain c where c: "init_session clk0 b = Returned c"
        "run [track_user clk, patch] c = Returned s1"
      by (blast dest: run_Returned_Cons)
    from c(2) obtain d where d: "track_user clk c = Returned d" "run [patch] d = Returned s1"
      by (blast dest: run_Returned_Cons)
    have "session_state a ''state_dic'' = None"
      using firestore_step_frame [of "{}" s h kf coll] a(1) assms by (simp add: frame_def)
    then have "session_state b ''state_dic'' = None"
      using load_step_frame [of "{}" a lfj] b(1) by (simp add: frame_def)
    then have "session_state c ''state_dict'' = Some (SVal (PDict []))"
      using init_session_state_dict [of b clk0] c(1) by auto
    then have "session_state d ''state_dict'' = Some (SVal (PDict []))"
      using track_user_frame [of c clk] d(1) by (simp add: frame_def)
    with d(2) show ?thesis by (auto simp: patch_def)
  qed
  moreover have "session_state (final (start_tracking h clk0 clk kf coll lfj s)) ''state_dic'' = None"
    using assms by (simp add: start_tracking_session)
  moreover have "session_state (final (stop_tracking h pw sj kf coll s)) ''state_dic'' = None"
    using assms by (simp add: stop_tracking_session)
  ultimately show ?thesis
    using init_session_state_dict [OF assms] by blast
qed


lemma init_session_well_formed:
  assumes "well_formed s"
  shows "\<exists>s3. init_session clk0 s = Returned s3 \<and> well_formed s3"
proof -
  from assms obtain t where "session_state s ''last_time'' = Some (SDatetime t)"
    by (auto simp: well_formed_def well_formed_store_def split: option.splits sval.splits)
  moreover from assms obtain b where "session_state s ''user_tracked'' = Some (SVal (PBool b))"
    by (auto simp: well_formed_def well_formed_store_def split: option.splits sval.splits pyval.splits)
  ultimately show ?thesis
    using assms by (simp add: init_session_def py_if_def set_session_def well_formed_def well_formed_store_def)
qed

lemma start_tracking_returns:
  assumes "init_session clk0 s = Returned s3" and "well_formed s3"
  shows "\<exists>s'. start_tracking h clk0 clk None coll None s = Returned s' \<and> well_formed s'"
proof -
  from assms(2) obtain p where p: "map_of (counts s3) ''total_pageviews'' = Some (PInt p)"
    by (auto simp: well_formed_def well_formed_store_def split: option.splits elim: is_int.elims)
  from assms(2) obtain r where r: "map_of (counts s3) ''total_script_runs'' = Some (PInt r)"
    by (auto simp: well_formed_def well_formed_store_def split: option.splits elim: is_int.elims)
  from assms(2) obtain b where b: "session_state s3 ''user_tracked'' = Some (SVal (PBool b))"
    by (auto simp: well_formed_def well_formed_store_def split: option.splits sval.splits pyval.splits)
  obtain s4 where s4: "track_user clk s3 = Returned s4" "well_formed s4"
    using track_user_step [OF assms(2) p r b, of clk] by (auto simp: track_user_def)
  have "firestore_step h None coll s = Returned s"
    by (simp add: firestore_step_def py_if_def firestore_due_def)
  moreover have "load_step None s = Returned s"
    by (rule load_step_None)
  ultimately have "start_tracking h clk0 clk None coll None s =
      Returned (s4\<lparr>st_attr := fold (\<lambda>(e, w) a. a(e := Wrapped w (orig s4 e))) patched (st_attr s4)\<rparr>)"
    using assms(1) s4(1) by (simp add: start_tracking_def patch_def)
  moreover have "well_formed (s4\<lparr>st_attr := fold (\<lambda>(e, w) a. a(e := Wrapped w (orig s4 e))) patched (st_attr s4)\<rparr>)"
    using s4(2) by (simp add: well_formed_def well_formed_store_def)
  ultimately show ?thesis by blast
qed

lemma well_formed_mid_session: "well_formed mid_session"
  by (simp add: mid_session_def two_days_def fresh_process_def well_formed_def well_formed_store_def per_day_lists_def)

theorem state_dict_reset_witness:
  "session_state mid_session ''state_dic'' = None
   \<and> session_state mid_session ''state_dict'' =
        Some (SVal (PDict [(KStr ''Select your favorite'', PStr ''dog'')]))
   \<and> returns (start_tracking quiet_host evening evening None ''counts'' None mid_session)
   \<and> session_state (final (start_tracking quiet_host evening evening None ''counts'' None mid_session))
        ''state_dict'' = Some (SVal (PDict []))"
proof -
  have n: "session_state mid_session ''state_dic'' = None"
    by (simp add: mid_session_def two_days_def fresh_process_def)
  have d: "session_state mid_session ''state_dict'' =
        Some (SVal (PDict [(KStr ''Select your favorite'', PStr ''dog'')]))"
    by (simp add: mid_session_def)
  obtain s3 where "init_session evening mid_session = Returned s3" "well_formed s3"
    using init_session_well_formed [OF well_formed_mid_session] by blast
  then obtain s1 where s1: "start_tracking quiet_host evening evening None ''counts'' None mid_session = Returned s1"
    using start_tracking_returns by blast
  then have "session_state s1 ''state_dict'' = Some (SVal (PDict []))"
    using state_dict_reset [OF n, of evening quiet_host evening None "''counts''" None s1] by blast
  with s1 n d show ?thesis by simp
qed

lemma fold_restore:
  "fold (\<lambda>e a. a(e := g e)) es a = (\<lambda>e. if e \<in> set es then g e else a e)"
  by (induction es arbitrary: a) (auto simp: fun_eq_iff)

lemma fold_patch_other:
  "e \<notin> fst ` set ps \<Longrightarrow> fold (\<lambda>(e, w) a. a(e := Wrapped w (g e))) ps a e = a e"
  by (induction ps arbitrary: a) (auto simp: split_beta)

lemma patched_restored: "fst ` set patched = set restored"
  by (simp add: patched_def restored_def)

lemma saved_restored: "set saved = set restored"
  by (simp add: saved_def restored_def)

lemma module_load_idle:
  "e \<in> set saved \<Longrightarrow> st_attr (module_load clk0 s) e = orig (module_load clk0 s) e"
  by (simp add: module_load_def fold_restore)

text \<open>
  C8 (as amended). When \<^verbatim>\<open>start_tracking\<close> and the body of the \<^verbatim>\<open>with\<close> statement return,
  \<^verbatim>\<open>track\<close> continues with \<^verbatim>\<open>stop_tracking\<close> on the state the body left.
  \<^verbatim>\<open>stop_tracking\<close>, however it ends, leaves every entry point of lines 248 to 283 equal to
  its \<^verbatim>\<open>_orig_\<close> global; neither it nor \<^verbatim>\<open>start_tracking\<close> changes the globals. These
  entry points are exactly
  those that \<^verbatim>\<open>start_tracking\<close> patches and those saved at module load, and right after
  module load each holds its saved original. A \<^verbatim>\<open>start_tracking\<close> that returns, followed
  by \<^verbatim>\<open>stop_tracking\<close>, leaves all entry points equal to their values before the start
  provided they held the saved originals then.
\<close>

theorem track_restores:
  "(start_tracking h clk0 clk kf coll lfj s = Returned s1 \<and> body s1 = Returned s2 \<longrightarrow>
       track h clk0 clk pw sj kf coll lfj body s = stop_tracking h pw sj kf coll s2)
   \<and> (\<forall>e \<in> set restored. st_attr (final (stop_tracking h pw sj kf coll s)) e = orig s e)
   \<and> orig (final (stop_tracking h pw sj kf coll s)) = orig s
   \<and> orig (final (start_tracking h clk0 clk kf coll lfj s)) = orig s
   \<and> fst ` set patched = set restored
   \<and> set saved = set restored
   \<and> (\<forall>e \<in> set saved. st_attr (module_load clk' s') e = orig (module_load clk' s') e)
   \<and> (start_tracking h clk0 clk kf coll lfj s = Returned s1
        \<and> (\<forall>e \<in> set restored. st_attr s e = orig s e) \<longrightarrow>
        st_attr (final (stop_tracking h pw sj kf coll s1)) = st_attr s)"
proof -
  have a: "track h clk0 clk pw sj kf coll lfj body s = stop_tracking h pw sj kf coll s2"
    if "start_tracking h clk0 clk kf coll lfj s = Returned s1" "body s1 = Returned s2"
    using that by (simp add: track_def split: outcome.splits)
  have b: "st_attr (final (stop_tracking h pw sj kf coll s)) e = orig s e" if "e \<in> set restored" for e
    using that by (simp add: stop_tracking_attr fold_restore)
  have c: "st_attr (final (stop_tracking h pw sj kf coll s1)) = st_attr s"
    if r: "start_tracking h clk0 clk kf coll lfj s = Returned s1"
      and i: "\<forall>e \<in> set restored. st_attr s e = orig s e"
  proof
    fix e
    have o: "orig s1 = orig s"
      using start_tracking_orig [of h clk0 clk kf coll lfj s] r by simp
    show "st_attr (final (stop_tracking h pw sj kf coll s1)) e = st_attr s e"
    proof (cases "e \<in> set restored")
      case True
      with i o show ?thesis by (simp add: stop_tracking_attr fold_restore)
    next
      case False
      then have "e \<notin> fst ` set patched" by (simp add: patched_restored)
      then have "st_attr s1 e = st_attr s e"
        by (simp add: start_tracking_attr [OF r] fold_patch_other)
      with False show ?thesis by (simp add: stop_tracking_attr fold_restore)
    qed
  qed
  show ?thesis
    using a b c stop_tracking_orig start_tracking_orig patched_restored saved_restored
      module_load_idle by blast
qed


lemma well_formed_first:
  "well_formed (final (init_session noon (module_load noon fresh_process)))"
proof -
  let ?s = "final (init_session noon (module_load noon fresh_process))"
  have c: "counts ?s = reset_counts noon [(''loaded_from_firestore'', PBool False)]"
    unfolding init_session_fresh by (simp add: module_load_def fresh_process_def)
  have m: "map_of (counts ?s) ''total_pageviews'' = Some (PInt 0)"
      "map_of (counts ?s) ''total_script_runs'' = Some (PInt 0)"
      "map_of (counts ?s) ''total_time_seconds'' = Some (PInt 0)"
      "per_day_lists (counts ?s) = Some ([PStr ''2024-01-01''], [PInt 0], [PInt 0])"
    unfolding c by (simp_all add: reset_counts_def map_of_dict_update per_day_lists_def noon_def)
  have u: "session_state ?s ''user_tracked'' = Some (SVal (PBool False))"
      "session_state ?s ''last_time'' = Some (SDatetime (now noon))"
    by (simp_all add: init_session_fresh)
  show ?thesis
    by (simp add: well_formed_def well_formed_store_def m u)
qed

lemma first_start_returns:
  "\<exists>s1. start_tracking h noon clk None coll None (module_load noon fresh_process) = Returned s1
     \<and> well_formed s1"
proof (rule start_tracking_returns)
  show "init_session noon (module_load noon fresh_process) =
      Returned (final (init_session noon (module_load noon fresh_process)))"
    by (simp add: init_session_fresh)
  show "well_formed (final (init_session noon (module_load noon fresh_process)))"
    by (rule well_formed_first)
qed

lemma tracking_started_returned:
  "start_tracking quiet_host noon noon None ''counts'' None (module_load noon fresh_process)
     = Returned tracking_started"
  using first_start_returns [of quiet_host noon "''counts''"] by (auto simp: tracking_started_def)

lemma well_formed_tracking_started: "well_formed tracking_started"
  using first_start_returns [of quiet_host noon "''counts''"] by (auto simp: tracking_started_def)

lemma stop_tracking_quiet:
  "\<not> analytics_on (query_params s) \<Longrightarrow> returns (stop_tracking h pw None None coll s)"
  by (simp add: stop_tracking_def unpatch_def firestore_save_step_def py_if_def save_step_def
      dashboard_step_def)

lemma idle_fresh:
  "st_attr (module_load noon fresh_process) = Host" "orig (module_load noon fresh_process) = Host"
  by (auto simp: module_load_def fresh_process_def fold_restore)

theorem track_restores_witness:
  "st_attr (module_load noon fresh_process) = orig (module_load noon fresh_process)
   \<and> start_tracking quiet_host noon noon None ''counts'' None (module_load noon fresh_process)
     = Returned tracking_started
   \<and> hello_body tracking_started = Returned (final (hello_body tracking_started))
   \<and> track quiet_host noon noon None None None ''counts'' None hello_body (module_load noon fresh_process)
        = stop_tracking quiet_host None None None ''counts'' (final (hello_body tracking_started))
   \<and> st_attr (final (stop_tracking quiet_host None None None ''counts'' tracking_started))
        = st_attr (module_load noon fresh_process)"
proof -
  let ?s0 = "module_load noon fresh_process"
  have b: "hello_body tracking_started = Returned (final (hello_body tracking_started))"
    by (simp add: hello_body_def st_write_def)
  note t = track_restores [where h = quiet_host and ?clk0.0 = noon and clk = noon and kf = None
      and coll = "''counts''" and lfj = None and s = ?s0 and ?s1.0 = tracking_started
      and body = hello_body and ?s2.0 = "final (hello_body tracking_started)"
      and pw = None and sj = None and clk' = noon and s' = fresh_process]
  have idle: "\<forall>e \<in> set restored. st_attr ?s0 e = orig ?s0 e"
    using t by blast
  have "st_attr ?s0 = orig ?s0"
    by (simp add: idle_fresh)
  then show ?thesis
    using t tracking_started_returned b idle by blast
qed

text \<open>
  C8 as stated fails when tracking is already started: before the second
  \<^verbatim>\<open>start_tracking\<close> the entry point \<^verbatim>\<open>st.button\<close> holds the wrapper, after the pair it
  holds the host's function.
\<close>

theorem second_start_not_undone:
  "returns (start_tracking quiet_host noon noon None ''counts'' None (module_load noon fresh_process))
   \<and> returns (start_tracking quiet_host evening evening None ''counts'' None tracking_started)
   \<and> returns (stop_tracking quiet_host None None None ''counts''
         (final (start_tracking quiet_host evening evening None ''counts'' None tracking_started)))
   \<and> st_attr tracking_started (St button) = Wrapped wrap_button (Host (St button))
   \<and> st_attr (final (stop_tracking quiet_host None None None ''counts''
         (final (start_tracking quiet_host evening evening None ''counts'' None tracking_started))))
        (St button) = Host (St button)"
proof -
  let ?s0 = "module_load noon fresh_process"
  let ?s2 = "final (start_tracking quiet_host evening evening None ''counts'' None tracking_started)"
  have r1: "returns (start_tracking quiet_host noon noon None ''counts'' None ?s0)"
    by (simp add: tracking_started_returned)
  obtain s3 where "init_session evening tracking_started = Returned s3" "well_formed s3"
    using init_session_well_formed [OF well_formed_tracking_started] by blast
  then obtain s2 where "start_tracking quiet_host evening evening None ''counts'' None tracking_started = Returned s2"
    using start_tracking_returns by blast
  then have r2: "returns (start_tracking quiet_host evening evening None ''counts'' None tracking_started)"
    by simp
  have o1: "orig tracking_started = Host"
    using start_tracking_orig [of quiet_host noon noon None "''counts''" None ?s0]
    by (simp add: tracking_started_def idle_fresh)
  have o2: "orig ?s2 = Host"
    using start_tracking_orig [of quiet_host evening evening None "''counts''" None tracking_started]
    by (simp add: o1)
  have q: "query_params ?s2 = Map.empty"
    by (simp add: start_tracking_query tracking_started_def module_load_def fresh_process_def)
  have r3: "returns (stop_tracking quiet_host None None None ''counts'' ?s2)"
    by (rule stop_tracking_quiet) (simp add: q analytics_on_def)
  have a1: "st_attr tracking_started (St button) = Wrapped wrap_button (Host (St button))"
    by (simp add: start_tracking_attr [OF tracking_started_returned] idle_fresh patched_def)
  have a3: "st_attr (final (stop_tracking quiet_host None None None ''counts'' ?s2)) (St button)
      = Host (St button)"
    by (simp add: stop_tracking_attr fold_restore o2 restored_def)
  show ?thesis
    using r1 r2 r3 a1 a3 by blast
qed

text \<open>
  C6. The code at the query string \<^verbatim>\<open>?analytics=none\<close>: \<^verbatim>\<open>"on" in "none"\<close> holds, so
  \<^verbatim>\<open>stop_tracking\<close> writes the rule and renders the dashboard although the parameter's
  value is not \<^verbatim>\<open>on\<close>.
\<close>

theorem dashboard_on_substring:
  "query_params none_query ''analytics'' = Some ''none''
   \<and> analytics_on (query_params none_query)
   \<and> page none_query = []
   \<and> page (final (stop_tracking quiet_host None None None ''counts'' none_query))
        = [Markdown ''---'', Dashboard]"
  by (simp add: none_query_def module_load_def fresh_process_def analytics_on_def sublist_code
      stop_tracking_def unpatch_def firestore_save_step_def py_if_def save_step_def
      dashboard_step_def st_write_def show_dashboard_def call_host_def quiet_host_def)


lemma update_absent: "k \<notin> fst ` set d \<Longrightarrow> AList.update k v d = d @ [(k, v)]"
  by (induction d) auto

lemma dict_update_distinct:
  "distinct (map fst ps) \<Longrightarrow> fst ` set ps \<inter> fst ` set d = {} \<Longrightarrow> dict_update d ps = d @ ps"
proof (induction ps arbitrary: d)
  case Nil
  then show ?case by (simp add: dict_update_def)
next
  case (Cons p ps)
  obtain k v where p: "p = (k, v)" by (cases p)
  from Cons.prems p have k: "k \<notin> fst ` set d" by auto
  from Cons.prems p have "fst ` set ps \<inter> fst ` set (d @ [(k, v)]) = {}" by auto
  moreover from Cons.prems have "distinct (map fst ps)" by simp
  ultimately have "dict_update (d @ [(k, v)]) ps = (d @ [(k, v)]) @ ps"
    by (intro Cons.IH)
  with k show ?case
    by (simp add: p dict_update_Cons update_absent)
qed

lemma dict_of_pairs_distinct: "distinct (map fst ps) \<Longrightarrow> dict_of_pairs ps = ps"
  using dict_update_distinct [of ps "[]"] by (simp add: dict_of_pairs_def)

lemma key_text_str: "is_str_key k \<Longrightarrow> KStr (key_text k) = k"
  by (cases k) auto

lemma json_dump_faithful: "json_faithful v \<Longrightarrow> json_dump v = v"
proof (induction v rule: json_dump.induct)
  case (1 al)
  have "map (\<lambda>(k, v). (KStr (key_text k), json_dump v)) al = al"
  proof (rule map_idI)
    fix p
    assume p: "p \<in> set al"
    obtain k v where kv: "p = (k, v)" by (cases p)
    from "1.prems" p kv have "is_str_key k" "json_faithful v" by auto
    moreover from this "1.IH" p kv have "json_dump v = v" by auto
    ultimately show "(case p of (k, v) \<Rightarrow> (KStr (key_text k), json_dump v)) = p"
      by (simp add: kv key_text_str)
  qed
  moreover from "1.prems" have "distinct (map fst al)" by simp
  ultimately show ?case by (simp add: dict_of_pairs_distinct)
next
  case (2 xs)
  then have "map json_dump xs = xs" by (intro map_idI) auto
  then show ?case by simp
qed auto

lemma map_of_KStr: "map_of (map (\<lambda>(k, v). (KStr k, v)) c) (KStr k) = map_of c k"
  by (induction c) auto

text \<open>
  C5 (as amended). For every store that is plain JSON data (every dict in it, at every
  depth, has distinct str keys): the save step of \<^verbatim>\<open>stop_tracking\<close> returns, and the load
  step of \<^verbatim>\<open>start_tracking\<close>, run on any store that reads the file just written, returns,
  keeps that store's keys and gives every key present in both stores the value it has in the
  saved store.
\<close>

theorem snapshot_round_trip:
  assumes "json_faithful (PDict (map (\<lambda>(k, v). (KStr k, v)) (counts s1)))"
    and "files s2 path = files (final (save_step (Some path) s1)) path"
  shows "returns (save_step (Some path) s1)
     \<and> (\<exists>s2'. load_step (Some path) s2 = Returned s2'
          \<and> map fst (counts s2') = map fst (counts s2)
          \<and> (\<forall>k \<in> fst ` set (counts s1) \<inter> fst ` set (counts s2).
                map_of (counts s2') k = map_of (counts s1) k))"
proof -
  let ?al = "map (\<lambda>(k, v). (KStr k, v)) (counts s1)"
  have f: "files s2 path = Some (Json_doc (PDict ?al))"
    using assms(2) json_dump_faithful [OF assms(1)] by (simp add: save_step_def)
  obtain c' where c': "merge_snapshot (counts s2) (PDict ?al) = Inr c'" "map fst c' = map fst (counts s2)"
      "\<forall>k. map_of c' k =
           (if k \<in> fst ` set (counts s2)
            then (case map_of ?al (KStr k) of Some v \<Rightarrow> Some v | None \<Rightarrow> map_of (counts s2) k)
            else None)"
    using merge_object [of "counts s2" ?al] by blast
  have l: "load_step (Some path) s2 = Returned (s2\<lparr>counts := c'\<rparr>)"
    using f c'(1) by (simp add: load_step_def load_counts_def)
  have "map_of c' k = map_of (counts s1) k"
    if "k \<in> fst ` set (counts s1) \<inter> fst ` set (counts s2)" for k
  proof -
    from that obtain v where v: "map_of (counts s1) k = Some v"
      by (metis IntD1 weak_map_of_SomeI imageE prod.collapse)
    from that c'(3) have "map_of c' k = (case map_of ?al (KStr k) of Some v \<Rightarrow> Some v | None \<Rightarrow> map_of (counts s2) k)"
      by simp
    with v show ?thesis by (simp add: map_of_KStr)
  qed
  with l c'(2) show ?thesis
    by (simp add: save_step_def)
qed

theorem snapshot_round_trip_witness:
  "json_faithful (PDict (map (\<lambda>(k, v). (KStr k, v)) (counts two_days)))
   \<and> returns (save_step (Some ''counts.json'') two_days)
   \<and> returns (load_step (Some ''counts.json'')
        ((module_load noon fresh_process)
           \<lparr>files := files (final (save_step (Some ''counts.json'') two_days))\<rparr>))
   \<and> map_of (counts (final (load_step (Some ''counts.json'')
        ((module_load noon fresh_process)
           \<lparr>files := files (final (save_step (Some ''counts.json'') two_days))\<rparr>)))) ''per_day''
      = map_of (counts two_days) ''per_day''"
proof -
  let ?s2 = "(module_load noon fresh_process)
           \<lparr>files := files (final (save_step (Some ''counts.json'') two_days))\<rparr>"
  have j: "json_faithful (PDict (map (\<lambda>(k, v). (KStr k, v)) (counts two_days)))"
    by (simp add: two_days_def fresh_process_def)
  have f: "files ?s2 ''counts.json'' = files (final (save_step (Some ''counts.json'') two_days)) ''counts.json''"
    by simp
  have k: "''per_day'' \<in> fst ` set (counts two_days) \<inter> fst ` set (counts ?s2)"
    by (simp add: two_days_def fresh_process_def module_load_def reset_counts_def keys_dict_update)
  obtain s2' where s2': "load_step (Some ''counts.json'') ?s2 = Returned s2'"
      "\<forall>k \<in> fst ` set (counts two_days) \<inter> fst ` set (counts ?s2).
                map_of (counts s2') k = map_of (counts two_days) k"
    using snapshot_round_trip [OF j f] by blast
  from s2'(2) k have "map_of (counts s2') ''per_day'' = map_of (counts two_days) ''per_day''"
    by blast
  with s2'(1) j snapshot_round_trip [OF j f] show ?thesis
    by simp
qed

text \<open>
  C5 as stated fails on a histogram keyed by integers (a select box whose options are 1 and
  2): \<^verbatim>\<open>json.dump\<close> writes the keys as the strings "1" and "2", and the value loaded for
  \<^verbatim>\<open>widgets\<close>, a key of both stores, differs from the value saved.
\<close>

theorem int_keys_not_round_tripped:
  "returns (save_step (Some ''counts.json'') int_keyed)
   \<and> returns (load_step (Some ''counts.json'')
        ((module_load noon fresh_process)
           \<lparr>files := files (final (save_step (Some ''counts.json'') int_keyed))\<rparr>))
   \<and> map_of (counts (module_load noon fresh_process)) ''widgets'' = Some (PDict [])
   \<and> map_of (counts int_keyed) ''widgets'' =
        Some (PDict [(KStr ''Pick a number'', PDict [(KInt 1, PInt 0), (KInt 2, PInt 1)])])
   \<and> map_of (counts (final (load_step (Some ''counts.json'')
        ((module_load noon fresh_process)
           \<lparr>files := files (final (save_step (Some ''counts.json'') int_keyed))\<rparr>)))) ''widgets'' =
        Some (PDict [(KStr ''Pick a number'', PDict [(KStr ''1'', PInt 0), (KStr ''2'', PInt 1)])])"
  by (simp add: int_keyed_def counts_fresh save_step_def load_step_def load_counts_def
      merge_snapshot_def and_then_def reset_counts_def keys_dict_update map_of_dict_update
      dict_of_pairs_def dict_update_def update_conv')

end
